theory Spec2Isabelle
  imports Main
begin

section \<open>Machine model\<close>

text \<open>
  The library is C. A \<^verbatim>\<open>size_t\<close> is modelled as a natural number. Additions and
  increments are over cell counts and positions of arrays that exist in memory, so they
  do not wrap; every subtraction of the source is written with \<open>size_sub\<close>, which wraps
  as a 64-bit \<^verbatim>\<open>size_t\<close> does.

  Every early return of the source is a value of \<open>error\<close>. The three library codes keep
  their names. \<open>AssertionFailed\<close> is a failed \<^verbatim>\<open>assert\<close>, \<open>DivisionByZero\<close> a division by
  a zero cut count, and \<open>MemoryFault\<close> a store or copy that leaves its allocated block, or
  the use of a pointer that refers to no object (all three undefined behaviour or an
  abort in C). Reads are not checked: the theorems are about well-formed tensors and
  statuses that satisfy the invariant below, where every position read lies within the
  length of its vector.
\<close>

datatype error =
    SPTERR_NO_MORE
  | SPTERR_VALUE_ERROR
  | SPTERR_OS_ERROR
  | AssertionFailed
  | DivisionByZero
  | MemoryFault

definition size_sub :: "nat \<Rightarrow> nat \<Rightarrow> nat" where
  "size_sub a b = (if b \<le> a then a - b else a + 2 ^ 64 - b)"

text \<open>
  Allocation: the oracle \<open>alloc n\<close> tells whether a request for \<open>n\<close> cells is granted;
  \<open>granted alloc\<close> says that every request is.
  A fresh block is indeterminate in C; the model fills it with \<open>0\<close>, and no theorem
  below reads a cell that was not written. \<^verbatim>\<open>realloc\<close> keeps the common prefix.
\<close>

definition granted :: "(nat \<Rightarrow> bool) \<Rightarrow> bool" where
  "granted alloc = (\<forall>n. alloc n)"

definition malloc_cells :: "(nat \<Rightarrow> bool) \<Rightarrow> nat \<Rightarrow> ('a::zero) list option" where
  "malloc_cells alloc n = (if alloc n then Some (replicate n 0) else None)"

definition realloc_cells :: "(nat \<Rightarrow> bool) \<Rightarrow> ('a::zero) list \<Rightarrow> nat \<Rightarrow> 'a list option" where
  "realloc_cells alloc xs n =
     (if alloc n then Some (take n xs @ replicate (n - length xs) 0) else None)"

text \<open>\<^verbatim>\<open>memcpy(dst, src + off, n * sizeof *src)\<close>: \<open>n\<close> cells, both ranges inside their blocks.\<close>

definition memcpy_cells :: "'a list \<Rightarrow> 'a list \<Rightarrow> nat \<Rightarrow> nat \<Rightarrow> error + 'a list" where
  "memcpy_cells dst src off n =
     (if n \<le> length dst \<and> off + n \<le> length src
      then Inr (take n (drop off src) @ drop n dst)
      else Inl MemoryFault)"

section \<open>Growable sequences (vector.c)\<close>

text \<open>
  \<^verbatim>\<open>sptVector\<close> and \<^verbatim>\<open>sptSizeVector\<close> are the same struct over two element types:
  the length, the capacity, and the block \<open>data\<close> points to (its list length is the
  allocated size).
\<close>

record 'a sptVector =
  len :: nat
  cap :: nat
  data :: "'a list"

type_synonym sptSizeVector = "nat sptVector"

text \<open>\<^verbatim>\<open>vec->data[i] = x\<close>\<close>

definition vec_store :: "'a sptVector \<Rightarrow> nat \<Rightarrow> 'a \<Rightarrow> error + 'a sptVector" where
  "vec_store vec i x =
     (if i < length (data vec) then Inr (vec\<lparr>data := (data vec)[i := x]\<rparr>)
      else Inl MemoryFault)"

definition sptNewVector :: "(nat \<Rightarrow> bool) \<Rightarrow> nat \<Rightarrow> nat \<Rightarrow> error + ('a::zero) sptVector" where
  "sptNewVector alloc len0 cap0 =
     (let cap1 = (if cap0 < len0 then len0 else cap0);
          cap2 = (if cap1 < 2 then 2 else cap1)
      in case malloc_cells alloc cap2 of
           None \<Rightarrow> Inl SPTERR_OS_ERROR
         | Some d \<Rightarrow> Inr \<lparr>len = len0, cap = cap2, data = d\<rparr>)"

definition sptCopyVector :: "(nat \<Rightarrow> bool) \<Rightarrow> ('a::zero) sptVector \<Rightarrow> error + 'a sptVector" where
  "sptCopyVector alloc src =
     (case sptNewVector alloc (len src) (len src) of
        Inl e \<Rightarrow> Inl e
      | Inr dest \<Rightarrow>
          (case memcpy_cells (data dest) (data src) 0 (len src) of
             Inl e \<Rightarrow> Inl e
           | Inr d \<Rightarrow> Inr (dest\<lparr>data := d\<rparr>)))"

text \<open>The growth step is the one compiled without \<^verbatim>\<open>MEMCHECK_MODE\<close>.\<close>

definition sptAppendVector :: "(nat \<Rightarrow> bool) \<Rightarrow> ('a::zero) sptVector \<Rightarrow> 'a \<Rightarrow> error + 'a sptVector" where
  "sptAppendVector alloc vec v =
     (case (if cap vec \<le> len vec
            then (let newcap = cap vec + cap vec div 2
                  in case realloc_cells alloc (data vec) newcap of
                       None \<Rightarrow> Inl SPTERR_OS_ERROR
                     | Some newdata \<Rightarrow> Inr (vec\<lparr>cap := newcap, data := newdata\<rparr>))
            else Inr vec) of
        Inl e \<Rightarrow> Inl e
      | Inr vec1 \<Rightarrow>
          (case vec_store vec1 (len vec1) v of
             Inl e \<Rightarrow> Inl e
           | Inr vec2 \<Rightarrow> Inr (vec2\<lparr>len := len vec2 + 1\<rparr>)))"

text \<open>
  The loop of \<^verbatim>\<open>sptAppendVectorWithVector\<close>: the store goes to \<^verbatim>\<open>vec->len + i\<close> and
  the body increments \<^verbatim>\<open>vec->len\<close> as well as \<^verbatim>\<open>i\<close>.
\<close>

function sptAppendVectorWithVector_loop ::
  "'a sptVector \<Rightarrow> 'a sptVector \<Rightarrow> nat \<Rightarrow> error + 'a sptVector" where
  "sptAppendVectorWithVector_loop vec append_vec i =
     (if i < len append_vec
      then (case vec_store vec (len vec + i) (data append_vec ! i) of
              Inl e \<Rightarrow> Inl e
            | Inr vec1 \<Rightarrow>
                sptAppendVectorWithVector_loop (vec1\<lparr>len := len vec1 + 1\<rparr>) append_vec (i + 1))
      else Inr vec)"
  by pat_completeness auto
termination
  by (relation "measure (\<lambda>(vec, append_vec, i). len append_vec - i)") auto

declare sptAppendVectorWithVector_loop.simps [simp del]

definition sptAppendVectorWithVector ::
  "(nat \<Rightarrow> bool) \<Rightarrow> ('a::zero) sptVector \<Rightarrow> 'a sptVector \<Rightarrow> error + 'a sptVector" where
  "sptAppendVectorWithVector alloc vec append_vec =
     (case (if cap vec \<le> len vec
            then (let newcap = cap vec + cap append_vec
                  in case realloc_cells alloc (data vec) newcap of
                       None \<Rightarrow> Inl SPTERR_OS_ERROR
                     | Some newdata \<Rightarrow> Inr (vec\<lparr>cap := newcap, data := newdata\<rparr>))
            else Inr vec) of
        Inl e \<Rightarrow> Inl e
      | Inr vec1 \<Rightarrow> sptAppendVectorWithVector_loop vec1 append_vec 0)"

definition sptResizeVector :: "(nat \<Rightarrow> bool) \<Rightarrow> ('a::zero) sptVector \<Rightarrow> nat \<Rightarrow> error + 'a sptVector" where
  "sptResizeVector alloc vec size0 =
     (let newcap = (if size0 < 2 then 2 else size0)
      in if newcap \<noteq> cap vec
         then (case realloc_cells alloc (data vec) newcap of
                 None \<Rightarrow> Inl SPTERR_OS_ERROR
               | Some newdata \<Rightarrow> Inr (vec\<lparr>len := size0, cap := newcap, data := newdata\<rparr>))
         else Inr (vec\<lparr>len := size0\<rparr>))"

text \<open>
  The \<^verbatim>\<open>size_t\<close> variants repeat the bodies above, except for the append of a range:
  \<^verbatim>\<open>sptAppendSizeVectorWithVector\<close> compares the capacity with the new length, stores
  at \<^verbatim>\<open>vec->len + i\<close> with \<^verbatim>\<open>vec->len\<close> fixed, and sets the length once after the
  loop.
\<close>

definition sptNewSizeVector :: "(nat \<Rightarrow> bool) \<Rightarrow> nat \<Rightarrow> nat \<Rightarrow> error + sptSizeVector" where
  "sptNewSizeVector alloc len0 cap0 =
     (let cap1 = (if cap0 < len0 then len0 else cap0);
          cap2 = (if cap1 < 2 then 2 else cap1)
      in case malloc_cells alloc cap2 of
           None \<Rightarrow> Inl SPTERR_OS_ERROR
         | Some d \<Rightarrow> Inr \<lparr>len = len0, cap = cap2, data = d\<rparr>)"

definition sptCopySizeVector :: "(nat \<Rightarrow> bool) \<Rightarrow> sptSizeVector \<Rightarrow> error + sptSizeVector" where
  "sptCopySizeVector alloc src =
     (case sptNewSizeVector alloc (len src) (len src) of
        Inl e \<Rightarrow> Inl e
      | Inr dest \<Rightarrow>
          (case memcpy_cells (data dest) (data src) 0 (len src) of
             Inl e \<Rightarrow> Inl e
           | Inr d \<Rightarrow> Inr (dest\<lparr>data := d\<rparr>)))"

definition sptAppendSizeVector :: "(nat \<Rightarrow> bool) \<Rightarrow> sptSizeVector \<Rightarrow> nat \<Rightarrow> error + sptSizeVector" where
  "sptAppendSizeVector alloc vec v =
     (case (if cap vec \<le> len vec
            then (let newcap = cap vec + cap vec div 2
                  in case realloc_cells alloc (data vec) newcap of
                       None \<Rightarrow> Inl SPTERR_OS_ERROR
                     | Some newdata \<Rightarrow> Inr (vec\<lparr>cap := newcap, data := newdata\<rparr>))
            else Inr vec) of
        Inl e \<Rightarrow> Inl e
      | Inr vec1 \<Rightarrow>
          (case vec_store vec1 (len vec1) v of
             Inl e \<Rightarrow> Inl e
           | Inr vec2 \<Rightarrow> Inr (vec2\<lparr>len := len vec2 + 1\<rparr>)))"

function sptAppendSizeVectorWithVector_loop ::
  "sptSizeVector \<Rightarrow> sptSizeVector \<Rightarrow> nat \<Rightarrow> error + sptSizeVector" where
  "sptAppendSizeVectorWithVector_loop vec append_vec i =
     (if i < len append_vec
      then (case vec_store vec (len vec + i) (data append_vec ! i) of
              Inl e \<Rightarrow> Inl e
            | Inr vec1 \<Rightarrow> sptAppendSizeVectorWithVector_loop vec1 append_vec (i + 1))
      else Inr vec)"
  by pat_completeness auto
termination
  by (relation "measure (\<lambda>(vec, append_vec, i). len append_vec - i)") auto

declare sptAppendSizeVectorWithVector_loop.simps [simp del]

definition sptAppendSizeVectorWithVector ::
  "(nat \<Rightarrow> bool) \<Rightarrow> sptSizeVector \<Rightarrow> sptSizeVector \<Rightarrow> error + sptSizeVector" where
  "sptAppendSizeVectorWithVector alloc vec append_vec =
     (let newlen = len vec + len append_vec
      in case (if cap vec \<le> newlen
               then (let newcap = cap vec + cap append_vec
                     in case realloc_cells alloc (data vec) newcap of
                          None \<Rightarrow> Inl SPTERR_OS_ERROR
                        | Some newdata \<Rightarrow> Inr (vec\<lparr>cap := newcap, data := newdata\<rparr>))
               else Inr vec) of
           Inl e \<Rightarrow> Inl e
         | Inr vec1 \<Rightarrow>
             (case sptAppendSizeVectorWithVector_loop vec1 append_vec 0 of
                Inl e \<Rightarrow> Inl e
              | Inr vec2 \<Rightarrow> Inr (vec2\<lparr>len := newlen\<rparr>)))"

definition sptResizeSizeVector :: "(nat \<Rightarrow> bool) \<Rightarrow> sptSizeVector \<Rightarrow> nat \<Rightarrow> error + sptSizeVector" where
  "sptResizeSizeVector alloc vec size0 =
     (let newcap = (if size0 < 2 then 2 else size0)
      in if newcap \<noteq> cap vec
         then (case realloc_cells alloc (data vec) newcap of
                 None \<Rightarrow> Inl SPTERR_OS_ERROR
               | Some newdata \<Rightarrow> Inr (vec\<lparr>len := size0, cap := newcap, data := newdata\<rparr>))
         else Inr (vec\<lparr>len := size0\<rparr>))"

text \<open>
  The invariant of a vector: the length is within the capacity, the capacity is at
  least 2 and is the size of the allocated block.
\<close>

definition vec_inv :: "'a sptVector \<Rightarrow> bool" where
  "vec_inv vec = (len vec \<le> cap vec \<and> 2 \<le> cap vec \<and> length (data vec) = cap vec)"

text \<open>The elements a vector holds.\<close>

definition vec_list :: "'a sptVector \<Rightarrow> 'a list" where
  "vec_list vec = take (len vec) (data vec)"

section \<open>Sparse tensors and the split status\<close>

text \<open>
  Modelled from the spec: the struct \<^verbatim>\<open>sptSparseTensor\<close> is declared in the header
  \<^verbatim>\<open>ParTI.h\<close>, which is not among the sources. The fields are the ones split.c reads
  and the spec's data model lists: the number of modes, the sort-key marker, the
  per-mode dimension sizes, the number of stored nonzeros, one index vector per mode and
  the value vector (\<open>vals\<close> is the field \<^verbatim>\<open>values\<close>).
\<close>

record 'v sptSparseTensor =
  nmodes :: nat
  sortkey :: nat
  ndims :: "nat list"
  nnz :: nat
  inds :: "sptSizeVector list"
  vals :: "'v sptVector"

type_synonym addr = nat

text \<open>
  \<^verbatim>\<open>struct spt_TagSplitStatus\<close>. The field \<open>tsr\<close> is a pointer to the source tensor
  (\<open>None\<close> is \<^verbatim>\<open>NULL\<close>); the four vectors are held by value.
\<close>

record spt_TagSplitStatus =
  tsr :: "addr option"
  cuts_by_mode :: sptSizeVector
  partial_low :: sptSizeVector
  partial_high :: sptSizeVector
  index_step :: sptSizeVector
  no_more :: int

text \<open>
  The store: the tensor objects and the status objects by address. A handle
  \<^verbatim>\<open>spt_SplitStatus\<close> is the address of a status object; \<open>next_block\<close> is the address
  the next \<^verbatim>\<open>malloc\<close> of a status object returns. A vector owns its block, so the blocks
  are part of the vectors.
\<close>

record 'v memory =
  tensors :: "addr \<Rightarrow> 'v sptSparseTensor option"
  statuses :: "addr \<Rightarrow> spt_TagSplitStatus option"
  next_block :: addr

text \<open>The cells a \<^verbatim>\<open>struct spt_TagSplitStatus\<close> takes (a pointer, four vectors, an int).\<close>

definition sizeof_status :: nat where
  "sizeof_status = 14"

section \<open>The split engine (split.c)\<close>

text \<open>
  \<^verbatim>\<open>spt_StartSplitSparseTensor\<close>. \<open>cuts\<close> is the caller's array of cut counts. The
  source does not test the result of the \<^verbatim>\<open>malloc\<close> of the status object, so a denied
  request is a store through \<^verbatim>\<open>NULL\<close>. An error return is the code alone: the
  half-built status object that the source leaks then is not represented.
\<close>

definition spt_StartSplitSparseTensor ::
  "(nat \<Rightarrow> bool) \<Rightarrow> 'v memory \<Rightarrow> addr \<Rightarrow> nat list \<Rightarrow> error + ('v memory \<times> addr)" where
  "spt_StartSplitSparseTensor alloc m tsr_p cuts =
     (case tensors m tsr_p of
        None \<Rightarrow> Inl MemoryFault
      | Some t \<Rightarrow>
          if nnz t = 0 then Inl SPTERR_NO_MORE
          else if sortkey t \<noteq> size_sub (nmodes t) 1 then Inl SPTERR_VALUE_ERROR
          else if \<not> alloc sizeof_status then Inl MemoryFault
          else
            (case sptNewSizeVector alloc (nmodes t) (nmodes t) of
               Inl e \<Rightarrow> Inl e
             | Inr cbm \<Rightarrow>
            (case memcpy_cells (data cbm) cuts 0 (nmodes t) of
               Inl e \<Rightarrow> Inl e
             | Inr cbm_data \<Rightarrow>
            (case sptNewSizeVector alloc 1 (nmodes t + 1) of
               Inl e \<Rightarrow> Inl e
             | Inr pl \<Rightarrow>
            (case sptNewSizeVector alloc 1 (nmodes t + 1) of
               Inl e \<Rightarrow> Inl e
             | Inr ph \<Rightarrow>
            (case sptNewSizeVector alloc 0 (nmodes t) of
               Inl e \<Rightarrow> Inl e
             | Inr istep \<Rightarrow>
            (case vec_store pl 0 0 of
               Inl e \<Rightarrow> Inl e
             | Inr pl1 \<Rightarrow>
            (case vec_store ph 0 (nnz t) of
               Inl e \<Rightarrow> Inl e
             | Inr ph1 \<Rightarrow>
                 Inr (m\<lparr>statuses := (statuses m)(next_block m \<mapsto>
                          \<lparr>tsr = Some tsr_p,
                           cuts_by_mode = cbm\<lparr>data := cbm_data\<rparr>,
                           partial_low = pl1,
                           partial_high = ph1,
                           index_step = istep,
                           no_more = 0\<rparr>),
                        next_block := next_block m + 1\<rparr>,
                      next_block m)))))))))"

text \<open>
  The first scan of a range (lines 82 to 92): the number of positions of \<open>[i, high)\<close>
  whose index differs from the index before it, added to \<open>index_counts\<close>.
\<close>

function count_indices :: "nat list \<Rightarrow> nat \<Rightarrow> nat \<Rightarrow> nat \<Rightarrow> nat \<Rightarrow> nat" where
  "count_indices idx i high last_index index_counts =
     (if i < high
      then (if idx ! i \<noteq> last_index
            then count_indices idx (i + 1) high (idx ! i) (index_counts + 1)
            else count_indices idx (i + 1) high last_index index_counts)
      else index_counts)"
  by pat_completeness auto
termination
  by (relation "measure (\<lambda>(idx, i, high, last_index, index_counts). high - i)") auto

declare count_indices.simps [simp del]

text \<open>
  The second scan (lines 107 to 119, and again 162 to 175): the position \<^verbatim>\<open>i\<close> the
  loop ends with, which is where it breaks or \<open>high\<close>.
\<close>

function scan_cut :: "nat list \<Rightarrow> nat \<Rightarrow> nat \<Rightarrow> nat \<Rightarrow> nat \<Rightarrow> nat \<Rightarrow> nat" where
  "scan_cut idx i high last_index index_counts step =
     (if i < high
      then (if idx ! i \<noteq> last_index
            then (if index_counts = step then i
                  else scan_cut idx (i + 1) high (idx ! i) (index_counts + 1) step)
            else scan_cut idx (i + 1) high last_index index_counts step)
      else i)"
  by pat_completeness auto
termination
  by (relation "measure (\<lambda>(idx, i, high, last_index, index_counts, step). high - i)") auto

declare scan_cut.simps [simp del]

text \<open>
  One pass through the body of the descend loop (lines 75 to 125): the status the pass
  leaves, and the error it returned with, if any. The step the second scan compares with
  is read back from \<^verbatim>\<open>status->index_step.data[mode]\<close>, as in the source.
\<close>

definition descend_body ::
  "(nat \<Rightarrow> bool) \<Rightarrow> 'v sptSparseTensor \<Rightarrow> spt_TagSplitStatus \<Rightarrow> nat
     \<Rightarrow> spt_TagSplitStatus \<times> error option" where
  "descend_body alloc t st mode =
     (let low = data (partial_low st) ! mode;
          high = data (partial_high st) ! mode
      in if \<not> low < high then (st, Some AssertionFailed)
         else
           (let idx = data (inds t ! mode);
                index_counts = count_indices idx low high (idx ! low) 1
            in if index_counts \<noteq> 0 \<and> data (cuts_by_mode st) ! mode = 0
               then (st, Some DivisionByZero)
               else
                 (let step = (if index_counts \<noteq> 0
                              then size_sub index_counts 1 div data (cuts_by_mode st) ! mode + 1
                              else 1)
                  in case sptAppendSizeVector alloc (index_step st) step of
                       Inl e \<Rightarrow> (st, Some e)
                     | Inr istep \<Rightarrow>
                         (let st1 = st\<lparr>index_step := istep\<rparr>;
                              i = scan_cut idx low high (idx ! low) 1 (data istep ! mode)
                          in case sptAppendSizeVector alloc (partial_low st1) low of
                               Inl e \<Rightarrow> (st1, Some e)
                             | Inr pl \<Rightarrow>
                                 (let st2 = st1\<lparr>partial_low := pl\<rparr>
                                  in case sptAppendSizeVector alloc (partial_high st2) i of
                                       Inl e \<Rightarrow> (st2, Some e)
                                     | Inr ph \<Rightarrow> (st2\<lparr>partial_high := ph\<rparr>, None))))))"

text \<open>The descend loop \<^verbatim>\<open>while(mode < status->tsr->nmodes)\<close> (lines 74 to 126).\<close>

function descend ::
  "(nat \<Rightarrow> bool) \<Rightarrow> 'v sptSparseTensor \<Rightarrow> spt_TagSplitStatus \<Rightarrow> nat
     \<Rightarrow> spt_TagSplitStatus \<times> error option" where
  "descend alloc t st mode =
     (if mode < nmodes t
      then (case descend_body alloc t st mode of
              (st1, Some e) \<Rightarrow> (st1, Some e)
            | (st1, None) \<Rightarrow> descend alloc t st1 (mode + 1))
      else (st, None))"
  by pat_completeness auto
termination
  by (relation "measure (\<lambda>(alloc, t, st, mode). nmodes t - mode)") auto

declare descend.simps [simp del]

text \<open>
  Modelled from the spec: \<^verbatim>\<open>sptNewSparseTensor\<close> is defined in a file that is not
  among the sources. By the spec it allocates a tensor with the given mode count and
  dimension sizes and no nonzeros; its vectors are created empty. The spec does not say
  which sort-key marker the new tensor gets, so the marker is the parameter \<open>sk\<close>.
\<close>

fun new_inds :: "(nat \<Rightarrow> bool) \<Rightarrow> nat \<Rightarrow> error + sptSizeVector list" where
  "new_inds alloc 0 = Inr []"
| "new_inds alloc (Suc n) =
     (case sptNewSizeVector alloc 0 0 of
        Inl e \<Rightarrow> Inl e
      | Inr v \<Rightarrow> (case new_inds alloc n of Inl e \<Rightarrow> Inl e | Inr vs \<Rightarrow> Inr (v # vs)))"

definition sptNewSparseTensor ::
  "(nat \<Rightarrow> bool) \<Rightarrow> nat \<Rightarrow> nat \<Rightarrow> nat list \<Rightarrow> error + ('v::zero) sptSparseTensor" where
  "sptNewSparseTensor alloc sk nmodes0 ndims0 =
     (if \<not> alloc nmodes0 then Inl SPTERR_OS_ERROR
      else case new_inds alloc nmodes0 of
             Inl e \<Rightarrow> Inl e
           | Inr vs \<Rightarrow>
               (case sptNewVector alloc 0 0 of
                  Inl e \<Rightarrow> Inl e
                | Inr vv \<Rightarrow>
                    Inr \<lparr>nmodes = nmodes0, sortkey = sk, ndims = take nmodes0 ndims0,
                         nnz = 0, inds = vs, vals = vv\<rparr>))"

text \<open>The body of the copy loop (lines 138 to 140): one mode's index vector.\<close>

definition copy_mode ::
  "(nat \<Rightarrow> bool) \<Rightarrow> 'v sptSparseTensor \<Rightarrow> 'v sptSparseTensor \<Rightarrow> nat \<Rightarrow> nat \<Rightarrow> nat
     \<Rightarrow> error + 'v sptSparseTensor" where
  "copy_mode alloc t dest cut_low cut_high mode =
     (case sptResizeSizeVector alloc (inds dest ! mode) (size_sub cut_high cut_low) of
        Inl e \<Rightarrow> Inl e
      | Inr v \<Rightarrow>
          (case memcpy_cells (data v) (data (inds t ! mode)) cut_low
                  (size_sub cut_high cut_low) of
             Inl e \<Rightarrow> Inl e
           | Inr d \<Rightarrow> Inr (dest\<lparr>inds := (inds dest)[mode := v\<lparr>data := d\<rparr>]\<rparr>)))"

text \<open>The copy loop over the modes (lines 137 to 141).\<close>

function copy_inds ::
  "(nat \<Rightarrow> bool) \<Rightarrow> 'v sptSparseTensor \<Rightarrow> 'v sptSparseTensor \<Rightarrow> nat \<Rightarrow> nat \<Rightarrow> nat
     \<Rightarrow> error + 'v sptSparseTensor" where
  "copy_inds alloc t dest cut_low cut_high mode =
     (if mode < nmodes t
      then (case copy_mode alloc t dest cut_low cut_high mode of
              Inl e \<Rightarrow> Inl e
            | Inr dest1 \<Rightarrow> copy_inds alloc t dest1 cut_low cut_high (mode + 1))
      else Inr dest)"
  by pat_completeness auto
termination
  by (relation "measure (\<lambda>(alloc, t, dest, cut_low, cut_high, mode). nmodes t - mode)") auto

declare copy_inds.simps [simp del]

text \<open>Lines 135 to 145: the chunk \<^verbatim>\<open>dest\<close> for the range \<open>[cut_low, cut_high)\<close>.\<close>

definition materialize ::
  "(nat \<Rightarrow> bool) \<Rightarrow> nat \<Rightarrow> ('v::zero) sptSparseTensor \<Rightarrow> nat \<Rightarrow> nat
     \<Rightarrow> error + 'v sptSparseTensor" where
  "materialize alloc sk t cut_low cut_high =
     (case sptNewSparseTensor alloc sk (nmodes t) (ndims t) of
        Inl e \<Rightarrow> Inl e
      | Inr dest0 \<Rightarrow>
          (case copy_inds alloc t dest0 cut_low cut_high 0 of
             Inl e \<Rightarrow> Inl e
           | Inr dest1 \<Rightarrow>
               (case sptResizeVector alloc (vals dest1) (size_sub cut_high cut_low) of
                  Inl e \<Rightarrow> Inl e
                | Inr v \<Rightarrow>
                    (case memcpy_cells (data v) (data (vals t)) cut_low
                            (size_sub cut_high cut_low) of
                       Inl e \<Rightarrow> Inl e
                     | Inr d \<Rightarrow>
                         Inr (dest1\<lparr>vals := v\<lparr>data := d\<rparr>,
                                    nnz := size_sub cut_high cut_low\<rparr>)))))"

text \<open>
  The backtrack loop \<^verbatim>\<open>while(mode-- > 0)\<close> and the two lines after it (lines 149 to
  184). \<open>mode\<close> is the value the loop test reads.
\<close>

function backtrack ::
  "'v sptSparseTensor \<Rightarrow> spt_TagSplitStatus \<Rightarrow> nat \<Rightarrow> spt_TagSplitStatus \<times> error option" where
  "backtrack t st mode =
     (if mode > 0
      then
        (let mode1 = mode - 1;
             low = data (partial_high st) ! (mode1 + 1);
             high = data (partial_high st) ! mode1
         in if low \<ge> high
            then backtrack t
                   (st\<lparr>partial_low := (partial_low st)\<lparr>len := size_sub (len (partial_low st)) 1\<rparr>,
                       partial_high := (partial_high st)\<lparr>len := size_sub (len (partial_high st)) 1\<rparr>,
                       index_step := (index_step st)\<lparr>len := size_sub (len (index_step st)) 1\<rparr>\<rparr>)
                   mode1
            else
              (let idx = data (inds t ! mode1);
                   i = scan_cut idx low high (idx ! low) 1 (data (index_step st) ! mode1)
               in case vec_store (partial_low st) (mode1 + 1) low of
                    Inl e \<Rightarrow> (st, Some e)
                  | Inr pl \<Rightarrow>
                      (let st1 = st\<lparr>partial_low := pl\<rparr>
                       in case vec_store (partial_high st1) (mode1 + 1) i of
                            Inl e \<Rightarrow> (st1, Some e)
                          | Inr ph \<Rightarrow> (st1\<lparr>partial_high := ph\<rparr>, None))))
      else (st\<lparr>no_more := 1\<rparr>, None))"
  by pat_completeness auto
termination
  by (relation "measure (\<lambda>(t, st, mode). mode)") auto

declare backtrack.simps [simp del]

text \<open>
  What a successful call hands back: the chunk \<^verbatim>\<open>*dest\<close>, and with it the values of the
  locals \<^verbatim>\<open>cut_low\<close> and \<^verbatim>\<open>cut_high\<close>, the chunk's range of source positions.
\<close>

record 'v chunk =
  cut_low :: nat
  cut_high :: nat
  dest :: "'v sptSparseTensor"

text \<open>The body of \<^verbatim>\<open>spt_SplitSparseTensor\<close> on the status object and its tensor.\<close>

definition split_body ::
  "(nat \<Rightarrow> bool) \<Rightarrow> nat \<Rightarrow> ('v::zero) sptSparseTensor \<Rightarrow> spt_TagSplitStatus
     \<Rightarrow> spt_TagSplitStatus \<times> (error + 'v chunk)" where
  "split_body alloc sk t st =
     (let mode = size_sub (len (partial_low st)) 1
      in case descend alloc t st mode of
           (st1, Some e) \<Rightarrow> (st1, Inl e)
         | (st1, None) \<Rightarrow>
             (let lo = data (partial_low st1) ! nmodes t;
                  hi = data (partial_high st1) ! nmodes t
              in case materialize alloc sk t lo hi of
                   Inl e \<Rightarrow> (st1, Inl e)
                 | Inr d \<Rightarrow>
                     (case backtrack t st1 (nmodes t) of
                        (st2, Some e) \<Rightarrow> (st2, Inl e)
                      | (st2, None) \<Rightarrow>
                          (st2, Inr \<lparr>cut_low = lo, cut_high = hi, dest = d\<rparr>))))"

text \<open>
  \<^verbatim>\<open>spt_SplitSparseTensor\<close>: the handle is dereferenced, the exhaustion flag is tested
  before the tensor is touched, and the status object is updated in place.
\<close>

definition spt_SplitSparseTensor ::
  "(nat \<Rightarrow> bool) \<Rightarrow> nat \<Rightarrow> ('v::zero) memory \<Rightarrow> addr \<Rightarrow> 'v memory \<times> (error + 'v chunk)" where
  "spt_SplitSparseTensor alloc sk m status =
     (case statuses m status of
        None \<Rightarrow> (m, Inl MemoryFault)
      | Some st \<Rightarrow>
          if no_more st \<noteq> 0 then (m, Inl SPTERR_NO_MORE)
          else
            (case tsr st of
               None \<Rightarrow> (m, Inl MemoryFault)
             | Some a \<Rightarrow>
                 (case tensors m a of
                    None \<Rightarrow> (m, Inl MemoryFault)
                  | Some t \<Rightarrow>
                      (case split_body alloc sk t st of
                         (st', r) \<Rightarrow> (m\<lparr>statuses := (statuses m)(status \<mapsto> st')\<rparr>, r)))))"

text \<open>\<^verbatim>\<open>sptFreeSizeVector\<close>: the block is released, the length and capacity stay.\<close>

definition sptFreeSizeVector :: "sptSizeVector \<Rightarrow> sptSizeVector" where
  "sptFreeSizeVector vec = vec\<lparr>data := []\<rparr>"

text \<open>
  \<^verbatim>\<open>spt_FinishSplitSparseTensor\<close>: the pointer to the tensor is cleared, the four
  vectors are released, and the status object itself is freed.
\<close>

definition spt_FinishSplitSparseTensor :: "'v memory \<Rightarrow> addr \<Rightarrow> error + 'v memory" where
  "spt_FinishSplitSparseTensor m status =
     (case statuses m status of
        None \<Rightarrow> Inl MemoryFault
      | Some st \<Rightarrow>
          (let st1 = st\<lparr>tsr := None\<rparr>;
               st2 = st1\<lparr>cuts_by_mode := sptFreeSizeVector (cuts_by_mode st1)\<rparr>;
               st3 = st2\<lparr>partial_low := sptFreeSizeVector (partial_low st2)\<rparr>;
               st4 = st3\<lparr>partial_high := sptFreeSizeVector (partial_high st3)\<rparr>;
               st5 = st4\<lparr>index_step := sptFreeSizeVector (index_step st4)\<rparr>;
               m1 = m\<lparr>statuses := (statuses m)(status \<mapsto> st5)\<rparr>
           in Inr (m1\<lparr>statuses := (statuses m1)(status := None)\<rparr>)))"

section \<open>Driving the engine\<close>

text \<open>
  The caller's loop: produce until \<^verbatim>\<open>SPTERR_NO_MORE\<close>, collecting the chunks. \<open>None\<close>
  is a loop that has not ended within the given number of calls.
\<close>

fun drive ::
  "nat \<Rightarrow> (nat \<Rightarrow> bool) \<Rightarrow> nat \<Rightarrow> ('v::zero) memory \<Rightarrow> addr \<Rightarrow> (error + 'v chunk list) option" where
  "drive 0 alloc sk m status = None"
| "drive (Suc n) alloc sk m status =
     (case spt_SplitSparseTensor alloc sk m status of
        (m', Inl e) \<Rightarrow> if e = SPTERR_NO_MORE then Some (Inr []) else Some (Inl e)
      | (m', Inr c) \<Rightarrow>
          (case drive n alloc sk m' status of
             None \<Rightarrow> None
           | Some (Inl e) \<Rightarrow> Some (Inl e)
           | Some (Inr cs) \<Rightarrow> Some (Inr (c # cs))))"

definition split_all ::
  "nat \<Rightarrow> (nat \<Rightarrow> bool) \<Rightarrow> nat \<Rightarrow> ('v::zero) memory \<Rightarrow> addr \<Rightarrow> nat list
     \<Rightarrow> (error + 'v chunk list) option" where
  "split_all fuel alloc sk m tsr_p cuts =
     (case spt_StartSplitSparseTensor alloc m tsr_p cuts of
        Inl e \<Rightarrow> Some (Inl e)
      | Inr (m', status) \<Rightarrow> drive fuel alloc sk m' status)"

text \<open>Calling produce \<open>n\<close> times in a row, whatever it returns.\<close>

fun repeat_split ::
  "nat \<Rightarrow> (nat \<Rightarrow> bool) \<Rightarrow> nat \<Rightarrow> ('v::zero) memory \<Rightarrow> addr
     \<Rightarrow> 'v memory \<times> (error + 'v chunk) list" where
  "repeat_split 0 alloc sk m status = (m, [])"
| "repeat_split (Suc n) alloc sk m status =
     (case spt_SplitSparseTensor alloc sk m status of
        (m1, r) \<Rightarrow>
          (case repeat_split n alloc sk m1 status of (m2, rs) \<Rightarrow> (m2, r # rs)))"

section \<open>Well-formed tensors and the invariant of the status\<close>

text \<open>
  A tensor as the data model has it: one index vector per mode and one dimension size
  per mode, every index vector and the value vector of length \<open>nnz\<close> inside its block.
\<close>

definition wf_tensor :: "'v sptSparseTensor \<Rightarrow> bool" where
  "wf_tensor t =
     (length (inds t) = nmodes t \<and> length (ndims t) = nmodes t \<and>
      list_all (\<lambda>v. len v = nnz t \<and> nnz t \<le> length (data v)) (inds t) \<and>
      len (vals t) = nnz t \<and> nnz t \<le> length (data (vals t)))"

text \<open>
  The invariant of a status over the tensor \<open>t\<close>: the stacks are proper vectors with
  room for every level, the cut counts are positive, the range stack has between 1 and
  \<open>nmodes + 1\<close> levels and the step stack one level less, every level has
  \<open>low < high\<close>, the upper ends do not grow with the depth, and level 0 ends at \<open>nnz\<close>.
\<close>

definition status_inv :: "'v sptSparseTensor \<Rightarrow> spt_TagSplitStatus \<Rightarrow> bool" where
  "status_inv t st =
     (vec_inv (partial_low st) \<and> vec_inv (partial_high st) \<and>
      vec_inv (index_step st) \<and> vec_inv (cuts_by_mode st) \<and>
      nmodes t + 1 \<le> cap (partial_low st) \<and> nmodes t + 1 \<le> cap (partial_high st) \<and>
      nmodes t \<le> cap (index_step st) \<and>
      len (cuts_by_mode st) = nmodes t \<and>
      list_all (\<lambda>c. 0 < c) (vec_list (cuts_by_mode st)) \<and>
      len (index_step st) + 1 = len (partial_high st) \<and>
      len (partial_high st) \<le> nmodes t + 1 \<and>
      list_all2 (<) (vec_list (partial_low st)) (vec_list (partial_high st)) \<and>
      sorted_wrt (\<ge>) (vec_list (partial_high st)) \<and>
      hd (vec_list (partial_high st)) = nnz t)"

text \<open>The rows of a tensor (one index per mode) and their lexicographic order.\<close>

definition tensor_rows :: "'v sptSparseTensor \<Rightarrow> nat list list" where
  "tensor_rows t = map (\<lambda>i. map (\<lambda>v. data v ! i) (inds t)) [0..<nnz t]"

fun lex_le :: "nat list \<Rightarrow> nat list \<Rightarrow> bool" where
  "lex_le [] ys = True"
| "lex_le (x # xs) [] = False"
| "lex_le (x # xs) (y # ys) = (x < y \<or> (x = y \<and> lex_le xs ys))"

definition lex_sorted :: "'v sptSparseTensor \<Rightarrow> bool" where
  "lex_sorted t = sorted_wrt lex_le (tensor_rows t)"

text \<open>The number of distinct index values in the positions \<open>[low, high)\<close>.\<close>

definition distinct_count :: "nat list \<Rightarrow> nat \<Rightarrow> nat \<Rightarrow> nat" where
  "distinct_count idx low high = length (remdups (take (high - low) (drop low idx)))"

text \<open>
  The number of runs in the positions \<open>[low, high)\<close>: maximal blocks of neighbouring
  positions with the same index value.
\<close>

definition runs_count :: "nat list \<Rightarrow> nat \<Rightarrow> nat \<Rightarrow> nat" where
  "runs_count idx low high = length (remdups_adj (take (high - low) (drop low idx)))"

text \<open>
  \<open>d\<close> is the slice \<open>[lo, hi)\<close> of \<open>t\<close>: the same mode count and dimension sizes,
  \<open>hi - lo\<close> nonzeros, and every index vector and the value vector hold the elements
  of the source at the positions \<open>lo\<close> to \<open>hi - 1\<close>, in the same order.
\<close>

definition is_slice :: "'v sptSparseTensor \<Rightarrow> nat \<Rightarrow> nat \<Rightarrow> 'v sptSparseTensor \<Rightarrow> bool" where
  "is_slice t lo hi d =
     (nmodes d = nmodes t \<and> ndims d = ndims t \<and> nnz d = hi - lo \<and>
      map vec_list (inds d) = map (\<lambda>v. take (hi - lo) (drop lo (vec_list v))) (inds t) \<and>
      vec_list (vals d) = take (hi - lo) (drop lo (vec_list (vals t))))"

text \<open>
  A list of ranges that covers \<open>[a, b)\<close> in order: the first starts at \<open>a\<close>, each next
  one starts where the one before it ended, the last ends at \<open>b\<close>, and none is empty.
\<close>

fun consecutive :: "nat \<Rightarrow> nat \<Rightarrow> (nat \<times> nat) list \<Rightarrow> bool" where
  "consecutive a b [] = (a = b)"
| "consecutive a b (r # rs) = (fst r = a \<and> fst r < snd r \<and> consecutive (snd r) b rs)"

definition chunk_range :: "'v chunk \<Rightarrow> nat \<times> nat" where
  "chunk_range c = (cut_low c, cut_high c)"

text \<open>
  The stores and handles a caller can reach: start succeeded on the store \<open>m0\<close> for the
  tensor at \<open>a\<close>, followed by any number of calls of produce, whatever they returned.
\<close>

inductive reachable ::
  "(nat \<Rightarrow> bool) \<Rightarrow> nat \<Rightarrow> ('v::zero) memory \<Rightarrow> addr \<Rightarrow> nat list \<Rightarrow> 'v memory \<Rightarrow> addr \<Rightarrow> bool"
  for alloc sk m0 a cuts where
    started: "spt_StartSplitSparseTensor alloc m0 a cuts = Inr (m, status)
              \<Longrightarrow> reachable alloc sk m0 a cuts m status"
  | produced: "reachable alloc sk m0 a cuts m status
              \<Longrightarrow> spt_SplitSparseTensor alloc sk m status = (m', r)
              \<Longrightarrow> reachable alloc sk m0 a cuts m' status"

text \<open>The handle refers to a status over the tensor at \<open>a\<close>, and the invariant holds.\<close>

definition engine_inv ::
  "addr \<Rightarrow> 'v sptSparseTensor \<Rightarrow> 'v memory \<Rightarrow> addr \<Rightarrow> spt_TagSplitStatus \<Rightarrow> bool" where
  "engine_inv a t m status st =
     (tensors m a = Some t \<and> statuses m status = Some st \<and> tsr st = Some a \<and>
      status_inv t st)"

section \<open>Example tensors\<close>

text \<open>
  Scenario A of the spec: two modes, six nonzeros, mode-0 indices 0 0 1 1 2 2 and mode-1
  indices 0 1 0 1 0 1, with any dimension sizes and values.
\<close>

definition scenario_a :: "nat list \<Rightarrow> 'v list \<Rightarrow> 'v sptSparseTensor" where
  "scenario_a dims vs =
     \<lparr>nmodes = 2, sortkey = 1, ndims = dims, nnz = 6,
      inds = [\<lparr>len = 6, cap = 6, data = [0, 0, 1, 1, 2, 2]\<rparr>,
              \<lparr>len = 6, cap = 6, data = [0, 1, 0, 1, 0, 1]\<rparr>],
      vals = \<lparr>len = 6, cap = 6, data = vs\<rparr>\<rparr>"

text \<open>
  The 2 by 2 tensor with all four entries stored, in lexicographic order: mode-0 indices
  0 0 1 1 and mode-1 indices 0 1 0 1.
\<close>

definition full_2x2 :: "'v list \<Rightarrow> 'v sptSparseTensor" where
  "full_2x2 vs =
     \<lparr>nmodes = 2, sortkey = 1, ndims = [2, 2], nnz = 4,
      inds = [\<lparr>len = 4, cap = 4, data = [0, 0, 1, 1]\<rparr>,
              \<lparr>len = 4, cap = 4, data = [0, 1, 0, 1]\<rparr>],
      vals = \<lparr>len = 4, cap = 4, data = vs\<rparr>\<rparr>"

text \<open>A store that holds one tensor, at address 0, and no status.\<close>

definition one_tensor :: "'v sptSparseTensor \<Rightarrow> 'v memory" where
  "one_tensor t = \<lparr>tensors = [0 \<mapsto> t], statuses = Map.empty, next_block = 0\<rparr>"

text \<open>The store after start and four calls of produce on scenario A.\<close>

definition exhausted_a :: "int memory" where
  "exhausted_a =
     (case spt_StartSplitSparseTensor (\<lambda>_. True)
             (one_tensor (scenario_a [3, 2] [1, 2, 3, 4, 5, 6])) 0 [3, 1] of
        Inl e \<Rightarrow> one_tensor (scenario_a [3, 2] [1, 2, 3, 4, 5, 6])
      | Inr (m, status) \<Rightarrow> fst (repeat_split 4 (\<lambda>_. True) 1 m status))"

text \<open>The store after start on scenario A.\<close>

definition started_a :: "int memory" where
  "started_a =
     (case spt_StartSplitSparseTensor (\<lambda>_. True)
             (one_tensor (scenario_a [3, 2] [1, 2, 3, 4, 5, 6])) 0 [3, 1] of
        Inl e \<Rightarrow> one_tensor (scenario_a [3, 2] [1, 2, 3, 4, 5, 6])
      | Inr (m, status) \<Rightarrow> m)"

section \<open>Which errors the operations return\<close>

lemma sptNewSizeVector_error:
  "sptNewSizeVector alloc len0 cap0 = Inl e \<Longrightarrow> e = SPTERR_OS_ERROR"
  by (auto simp: sptNewSizeVector_def malloc_cells_def Let_def split: if_splits)

lemma sptNewVector_error:
  "sptNewVector alloc len0 cap0 = Inl e \<Longrightarrow> e = SPTERR_OS_ERROR"
  by (auto simp: sptNewVector_def malloc_cells_def Let_def split: if_splits)

lemma sptResizeSizeVector_error:
  "sptResizeSizeVector alloc vec n = Inl e \<Longrightarrow> e = SPTERR_OS_ERROR"
  by (auto simp: sptResizeSizeVector_def realloc_cells_def Let_def split: if_splits)

lemma sptResizeVector_error:
  "sptResizeVector alloc vec n = Inl e \<Longrightarrow> e = SPTERR_OS_ERROR"
  by (auto simp: sptResizeVector_def realloc_cells_def Let_def split: if_splits)

lemma memcpy_cells_error:
  "memcpy_cells dst src off n = Inl e \<Longrightarrow> e = MemoryFault"
  by (auto simp: memcpy_cells_def split: if_splits)

lemma vec_store_error:
  "vec_store vec i x = Inl e \<Longrightarrow> e = MemoryFault"
  by (auto simp: vec_store_def split: if_splits)

lemma sptAppendSizeVector_error:
  "sptAppendSizeVector alloc vec v = Inl e \<Longrightarrow> e = SPTERR_OS_ERROR \<or> e = MemoryFault"
  by (auto simp: sptAppendSizeVector_def realloc_cells_def vec_store_def Let_def
           split: if_splits sum.splits option.splits)

lemma new_inds_error:
  "new_inds alloc n = Inl e \<Longrightarrow> e = SPTERR_OS_ERROR"
  by (induction n arbitrary: e) (auto split: sum.splits dest: sptNewSizeVector_error)

lemma sptNewSparseTensor_error:
  "sptNewSparseTensor alloc sk n ds = Inl e \<Longrightarrow> e = SPTERR_OS_ERROR"
  by (auto simp: sptNewSparseTensor_def split: if_splits sum.splits
           dest: new_inds_error sptNewVector_error)

lemma copy_mode_error:
  "copy_mode alloc t d lo hi mode = Inl e \<Longrightarrow> e = SPTERR_OS_ERROR \<or> e = MemoryFault"
  by (auto simp: copy_mode_def split: sum.splits
           dest: sptResizeSizeVector_error memcpy_cells_error)

lemma copy_inds_error:
  "copy_inds alloc t d lo hi mode = Inl e \<Longrightarrow> e = SPTERR_OS_ERROR \<or> e = MemoryFault"
proof (induction alloc t d lo hi mode rule: copy_inds.induct)
  case (1 alloc t d lo hi mode)
  show ?case
  proof (cases "mode < nmodes t")
    case False
    with "1.prems" show ?thesis by (simp add: copy_inds.simps)
  next
    case True
    show ?thesis
    proof (cases "copy_mode alloc t d lo hi mode")
      case (Inl e1)
      with True "1.prems" show ?thesis
        by (simp add: copy_inds.simps[of alloc t d] copy_mode_error)
    next
      case (Inr d1)
      with True "1.prems" "1.IH"[OF True Inr] show ?thesis
        by (simp add: copy_inds.simps[of alloc t d])
    qed
  qed
qed

lemma materialize_error:
  "materialize alloc sk t lo hi = Inl e \<Longrightarrow> e = SPTERR_OS_ERROR \<or> e = MemoryFault"
  by (auto simp: materialize_def split: sum.splits
           dest: sptNewSparseTensor_error copy_inds_error sptResizeVector_error memcpy_cells_error)

lemma descend_body_error:
  "descend_body alloc t st mode = (st', Some e) \<Longrightarrow> e \<noteq> SPTERR_NO_MORE"
  unfolding descend_body_def Let_def
  by (auto split: if_splits sum.splits dest!: sptAppendSizeVector_error)

lemma descend_error:
  "descend alloc t st mode = (st', Some e) \<Longrightarrow> e \<noteq> SPTERR_NO_MORE"
proof (induction alloc t st mode rule: descend.induct)
  case (1 alloc t st mode)
  show ?case
  proof (cases "mode < nmodes t")
    case False
    with "1.prems" show ?thesis by (simp add: descend.simps)
  next
    case True
    obtain st1 r where b: "descend_body alloc t st mode = (st1, r)" by force
    show ?thesis
    proof (cases r)
      case None
      with True b "1.prems" have "descend alloc t st1 (mode + 1) = (st', Some e)"
        by (simp add: descend.simps[of alloc t st mode])
      with "1.IH"[OF True b[symmetric]] None show ?thesis by simp
    next
      case (Some e')
      with True b "1.prems" have "e' = e"
        by (simp add: descend.simps[of alloc t st mode])
      with b Some show ?thesis using descend_body_error by blast
    qed
  qed
qed

lemma backtrack_error:
  "backtrack t st mode = (st', Some e) \<Longrightarrow> e = MemoryFault"
proof (induction t st mode rule: backtrack.induct)
  case (1 t st mode)
  show ?case
  proof (cases "mode > 0")
    case False
    with "1.prems" show ?thesis by (simp add: backtrack.simps)
  next
    case True
    show ?thesis
    proof (cases "data (partial_high st) ! (mode - 1 + 1) \<ge> data (partial_high st) ! (mode - 1)")
      case pop: True
      with True "1.prems" "1.IH"[OF True refl refl refl pop] show ?thesis
        by (simp add: backtrack.simps[of t st mode] Let_def)
    next
      case False
      with True "1.prems" show ?thesis
        by (auto simp: backtrack.simps[of t st mode] Let_def split: sum.splits
                 dest: vec_store_error)
    qed
  qed
qed

lemma split_body_error:
  "split_body alloc sk t st = (st', Inl e) \<Longrightarrow> e \<noteq> SPTERR_NO_MORE"
  unfolding split_body_def Let_def
  by (auto split: prod.splits option.splits sum.splits
           dest: descend_error materialize_error backtrack_error)

section \<open>Start\<close>

lemma sptNewSizeVector_granted:
  "alloc (max (max len0 cap0) 2) \<Longrightarrow>
   sptNewSizeVector alloc len0 cap0 =
     Inr \<lparr>len = len0, cap = max (max len0 cap0) 2, data = replicate (max (max len0 cap0) 2) 0\<rparr>"
  by (auto simp: sptNewSizeVector_def malloc_cells_def Let_def max_def)

lemma start_NoMore:
  "tensors m a = Some t \<Longrightarrow>
   (spt_StartSplitSparseTensor alloc m a cuts = Inl SPTERR_NO_MORE) = (nnz t = 0)"
  by (auto simp: spt_StartSplitSparseTensor_def memcpy_cells_def vec_store_def
           split: sum.splits if_splits dest!: sptNewSizeVector_error)

lemma start_ValueError:
  "tensors m a = Some t \<Longrightarrow> nnz t \<noteq> 0 \<Longrightarrow>
   (spt_StartSplitSparseTensor alloc m a cuts = Inl SPTERR_VALUE_ERROR)
     = (sortkey t \<noteq> size_sub (nmodes t) 1)"
  by (auto simp: spt_StartSplitSparseTensor_def memcpy_cells_def vec_store_def
           split: sum.splits if_splits dest!: sptNewSizeVector_error)

lemma start_success:
  assumes "tensors m a = Some t" "nnz t \<noteq> 0" "sortkey t = size_sub (nmodes t) 1"
    "nmodes t \<le> length cuts" "granted alloc"
  shows "\<exists>st. spt_StartSplitSparseTensor alloc m a cuts =
           Inr (m\<lparr>statuses := (statuses m)(next_block m \<mapsto> st),
                  next_block := next_block m + 1\<rparr>, next_block m) \<and>
         tsr st = Some a \<and> no_more st = 0 \<and>
         vec_list (partial_low st) = [0] \<and> vec_list (partial_high st) = [nnz t] \<and>
         vec_list (index_step st) = [] \<and> vec_list (cuts_by_mode st) = take (nmodes t) cuts \<and>
         vec_inv (partial_low st) \<and> vec_inv (partial_high st) \<and>
         vec_inv (index_step st) \<and> vec_inv (cuts_by_mode st) \<and>
         nmodes t + 1 \<le> cap (partial_low st) \<and> nmodes t + 1 \<le> cap (partial_high st) \<and>
         nmodes t \<le> cap (index_step st) \<and> len (cuts_by_mode st) = nmodes t"
proof -
  have g: "\<And>l c. sptNewSizeVector alloc l c =
     Inr \<lparr>len = l, cap = max (max l c) 2, data = replicate (max (max l c) 2) 0\<rparr>"
    using assms(5) by (simp add: sptNewSizeVector_granted granted_def)
  define st where "st = \<lparr>tsr = Some a,
       cuts_by_mode = \<lparr>len = nmodes t, cap = max (max (nmodes t) (nmodes t)) 2,
          data = take (nmodes t) cuts @ drop (nmodes t) (replicate (max (max (nmodes t) (nmodes t)) 2) 0)\<rparr>,
       partial_low = \<lparr>len = 1, cap = max (max 1 (nmodes t + 1)) 2,
          data = (replicate (max (max 1 (nmodes t + 1)) 2) 0)[0 := 0]\<rparr>,
       partial_high = \<lparr>len = 1, cap = max (max 1 (nmodes t + 1)) 2,
          data = (replicate (max (max 1 (nmodes t + 1)) 2) 0)[0 := nnz t]\<rparr>,
       index_step = \<lparr>len = 0, cap = max (max 0 (nmodes t)) 2,
          data = replicate (max (max 0 (nmodes t)) 2) 0\<rparr>,
       no_more = 0\<rparr>"
  have "spt_StartSplitSparseTensor alloc m a cuts =
           Inr (m\<lparr>statuses := (statuses m)(next_block m \<mapsto> st),
                  next_block := next_block m + 1\<rparr>, next_block m)"
    unfolding spt_StartSplitSparseTensor_def st_def g
    using assms by (simp add: memcpy_cells_def vec_store_def granted_def)
  moreover have "vec_list (partial_low st) = [0]" "vec_list (partial_high st) = [nnz t]"
    by (simp_all add: st_def vec_list_def take_Suc_conv_app_nth)
  moreover have "vec_list (index_step st) = []"
     "vec_list (cuts_by_mode st) = take (nmodes t) cuts"
    using assms(4) by (simp_all add: st_def vec_list_def)
  moreover have "vec_inv (partial_low st)" "vec_inv (partial_high st)"
         "vec_inv (index_step st)" "vec_inv (cuts_by_mode st)"
    using assms(4) by (simp_all add: st_def vec_inv_def)
  moreover have "nmodes t + 1 \<le> cap (partial_low st)" "nmodes t + 1 \<le> cap (partial_high st)"
         "nmodes t \<le> cap (index_step st)" "len (cuts_by_mode st) = nmodes t"
         "tsr st = Some a" "no_more st = 0"
    by (simp_all add: st_def)
  ultimately show ?thesis by blast
qed

lemma sptNewSizeVector_eq:
  "sptNewSizeVector alloc l c =
     (if alloc (max (max l c) 2)
      then Inr \<lparr>len = l, cap = max (max l c) 2, data = replicate (max (max l c) 2) 0\<rparr>
      else Inl SPTERR_OS_ERROR)"
  by (auto simp: sptNewSizeVector_def malloc_cells_def Let_def max_def)

lemma start_Inr:
  assumes t: "tensors m0 a = Some t" and l: "length cuts = nmodes t"
    and s: "spt_StartSplitSparseTensor alloc m0 a cuts = Inr (m, status)"
  shows "\<exists>st. m = m0\<lparr>statuses := (statuses m0)(next_block m0 \<mapsto> st),
                      next_block := next_block m0 + 1\<rparr> \<and>
              status = next_block m0 \<and> tsr st = Some a \<and> no_more st = 0 \<and>
              vec_list (partial_low st) = [0] \<and> vec_list (partial_high st) = [nnz t] \<and>
              vec_list (index_step st) = [] \<and> vec_list (cuts_by_mode st) = cuts \<and>
              vec_inv (partial_low st) \<and> vec_inv (partial_high st) \<and>
              vec_inv (index_step st) \<and> vec_inv (cuts_by_mode st) \<and>
              nmodes t + 1 \<le> cap (partial_low st) \<and> nmodes t + 1 \<le> cap (partial_high st) \<and>
              nmodes t \<le> cap (index_step st) \<and> len (cuts_by_mode st) = nmodes t \<and>
              len (index_step st) + 1 = len (partial_high st) \<and>
              len (partial_high st) \<le> nmodes t + 1 \<and> 0 < nnz t"
proof -
  have n: "nnz t \<noteq> 0" "sortkey t = size_sub (nmodes t) 1"
    using s t by (auto simp: spt_StartSplitSparseTensor_def split: if_splits)
  define st where "st = \<lparr>tsr = Some a,
       cuts_by_mode = \<lparr>len = nmodes t, cap = max (max (nmodes t) (nmodes t)) 2,
          data = take (nmodes t) cuts @ drop (nmodes t) (replicate (max (max (nmodes t) (nmodes t)) 2) 0)\<rparr>,
       partial_low = \<lparr>len = 1, cap = max (max 1 (nmodes t + 1)) 2,
          data = (replicate (max (max 1 (nmodes t + 1)) 2) 0)[0 := 0]\<rparr>,
       partial_high = \<lparr>len = 1, cap = max (max 1 (nmodes t + 1)) 2,
          data = (replicate (max (max 1 (nmodes t + 1)) 2) 0)[0 := nnz t]\<rparr>,
       index_step = \<lparr>len = 0, cap = max (max 0 (nmodes t)) 2,
          data = replicate (max (max 0 (nmodes t)) 2) 0\<rparr>,
       no_more = 0\<rparr>"
  have "spt_StartSplitSparseTensor alloc m0 a cuts =
          Inr (m0\<lparr>statuses := (statuses m0)(next_block m0 \<mapsto> st),
                  next_block := next_block m0 + 1\<rparr>, next_block m0) \<or>
        (\<exists>e. spt_StartSplitSparseTensor alloc m0 a cuts = Inl e)"
    unfolding spt_StartSplitSparseTensor_def st_def sptNewSizeVector_eq
    using t n l by (simp add: memcpy_cells_def vec_store_def)
  with s have mm: "m = m0\<lparr>statuses := (statuses m0)(next_block m0 \<mapsto> st),
                  next_block := next_block m0 + 1\<rparr>" "status = next_block m0"
    by auto
  have "vec_list (partial_low st) = [0]" "vec_list (partial_high st) = [nnz t]"
    by (simp_all add: st_def vec_list_def take_Suc_conv_app_nth)
  moreover have "vec_list (index_step st) = []"
     "vec_list (cuts_by_mode st) = cuts"
    using l by (simp_all add: st_def vec_list_def)
  moreover have "vec_inv (partial_low st)" "vec_inv (partial_high st)"
         "vec_inv (index_step st)" "vec_inv (cuts_by_mode st)"
    using l by (simp_all add: st_def vec_inv_def)
  moreover have "nmodes t + 1 \<le> cap (partial_low st)" "nmodes t + 1 \<le> cap (partial_high st)"
         "nmodes t \<le> cap (index_step st)" "len (cuts_by_mode st) = nmodes t"
         "len (index_step st) + 1 = len (partial_high st)"
         "len (partial_high st) \<le> nmodes t + 1"
         "no_more st = 0" "tsr st = Some a"
    by (simp_all add: st_def)
  ultimately show ?thesis using mm n by blast
qed

lemma start_engine_inv:
  assumes t: "tensors m0 a = Some t" and l: "length cuts = nmodes t"
    and p: "list_all (\<lambda>c. 0 < c) cuts"
    and s: "spt_StartSplitSparseTensor alloc m0 a cuts = Inr (m, status)"
  shows "\<exists>st. engine_inv a t m status st \<and> no_more st = 0 \<and>
              vec_list (partial_low st) = [0]"
proof -
  from start_Inr[OF t l s] obtain st where
    mm: "m = m0\<lparr>statuses := (statuses m0)(next_block m0 \<mapsto> st),
                      next_block := next_block m0 + 1\<rparr>" "status = next_block m0"
    and f: "tsr st = Some a" "no_more st = 0"
    and v: "vec_list (partial_low st) = [0]" "vec_list (partial_high st) = [nnz t]"
      "vec_list (index_step st) = []" "vec_list (cuts_by_mode st) = cuts"
    and i: "vec_inv (partial_low st)" "vec_inv (partial_high st)"
      "vec_inv (index_step st)" "vec_inv (cuts_by_mode st)"
    and c: "nmodes t + 1 \<le> cap (partial_low st)" "nmodes t + 1 \<le> cap (partial_high st)"
      "nmodes t \<le> cap (index_step st)" "len (cuts_by_mode st) = nmodes t"
      "len (index_step st) + 1 = len (partial_high st)"
      "len (partial_high st) \<le> nmodes t + 1" "0 < nnz t"
    by blast
  have "status_inv t st"
    unfolding status_inv_def using v i c p by simp
  with t mm f v(1) show ?thesis by (auto simp: engine_inv_def)
qed

text \<open>
  C2. If the tensor has no nonzeros, start fails with \<^verbatim>\<open>SPTERR_NO_MORE\<close>, and only
  then. Otherwise it fails with \<^verbatim>\<open>SPTERR_VALUE_ERROR\<close> exactly if the sort-key
  marker differs from \<open>nmodes - 1\<close> (as a \<^verbatim>\<open>size_t\<close>). Otherwise, every allocation
  being granted, it succeeds. Whenever it succeeds, the new status has the one level
  \<open>[0, nnz)\<close> on its range stack, an empty step stack and a clear exhaustion flag, and
  the tensors of the store are untouched.
\<close>

theorem start_result:
  assumes "tensors m a = Some t" and "length cuts = nmodes t"
  shows "(spt_StartSplitSparseTensor alloc m a cuts = Inl SPTERR_NO_MORE) = (nnz t = 0) \<and>
         (nnz t \<noteq> 0 \<longrightarrow>
            (spt_StartSplitSparseTensor alloc m a cuts = Inl SPTERR_VALUE_ERROR)
              = (sortkey t \<noteq> size_sub (nmodes t) 1)) \<and>
         (nnz t \<noteq> 0 \<and> sortkey t = size_sub (nmodes t) 1 \<and> granted alloc \<longrightarrow>
            (\<exists>m' status. spt_StartSplitSparseTensor alloc m a cuts = Inr (m', status))) \<and>
         (\<forall>m' status. spt_StartSplitSparseTensor alloc m a cuts = Inr (m', status) \<longrightarrow>
            (\<exists>st. statuses m' status = Some st \<and> tensors m' = tensors m \<and>
               tsr st = Some a \<and> no_more st = 0 \<and>
               vec_list (partial_low st) = [0] \<and> vec_list (partial_high st) = [nnz t] \<and>
               vec_list (index_step st) = []))"
proof (intro conjI impI allI)
  show "(spt_StartSplitSparseTensor alloc m a cuts = Inl SPTERR_NO_MORE) = (nnz t = 0)"
    using assms(1) by (rule start_NoMore)
next
  assume "nnz t \<noteq> 0"
  with assms(1) show "(spt_StartSplitSparseTensor alloc m a cuts = Inl SPTERR_VALUE_ERROR)
              = (sortkey t \<noteq> size_sub (nmodes t) 1)"
    by (rule start_ValueError)
next
  assume h: "nnz t \<noteq> 0 \<and> sortkey t = size_sub (nmodes t) 1 \<and> granted alloc"
  with assms start_success[of m a t cuts alloc]
  show "\<exists>m' status. spt_StartSplitSparseTensor alloc m a cuts = Inr (m', status)"
    by auto
next
  fix m' status
  assume "spt_StartSplitSparseTensor alloc m a cuts = Inr (m', status)"
  from start_Inr[OF assms this] obtain st where
    "m' = m\<lparr>statuses := (statuses m)(next_block m \<mapsto> st),
                      next_block := next_block m + 1\<rparr>" "status = next_block m"
    "tsr st = Some a" "no_more st = 0"
    "vec_list (partial_low st) = [0]" "vec_list (partial_high st) = [nnz t]"
    "vec_list (index_step st) = []"
    by blast
  then show "\<exists>st. statuses m' status = Some st \<and> tensors m' = tensors m \<and>
               tsr st = Some a \<and> no_more st = 0 \<and>
               vec_list (partial_low st) = [0] \<and> vec_list (partial_high st) = [nnz t] \<and>
               vec_list (index_step st) = []"
    by simp
qed

theorem start_result_witness:
  "spt_StartSplitSparseTensor (\<lambda>_. True)
      (one_tensor (scenario_a [3, 2] [1, 2, 3, 4, 5, 6::int])) 0 [3, 1]
      \<noteq> Inl SPTERR_NO_MORE \<and>
   spt_StartSplitSparseTensor (\<lambda>_. True)
      (one_tensor (scenario_a [3, 2] [1, 2, 3, 4, 5, 6::int])) 0 [3, 1]
      \<noteq> Inl SPTERR_VALUE_ERROR \<and>
   (\<exists>m' status st.
      spt_StartSplitSparseTensor (\<lambda>_. True)
        (one_tensor (scenario_a [3, 2] [1, 2, 3, 4, 5, 6::int])) 0 [3, 1]
        = Inr (m', status) \<and>
      statuses m' status = Some st \<and>
      vec_list (partial_low st) = [0] \<and> vec_list (partial_high st) = [6])"
proof -
  have a: "tensors (one_tensor (scenario_a [3, 2] [1, 2, 3, 4, 5, 6::int])) 0
             = Some (scenario_a [3, 2] [1, 2, 3, 4, 5, 6::int])"
    by (simp add: one_tensor_def)
  have b: "length [3, 1::nat] = nmodes (scenario_a [3, 2] [1, 2, 3, 4, 5, 6::int])"
    by (simp add: scenario_a_def)
  have c: "nnz (scenario_a [3, 2] [1, 2, 3, 4, 5, 6::int]) = 6"
     "sortkey (scenario_a [3, 2] [1, 2, 3, 4, 5, 6::int])
        = size_sub (nmodes (scenario_a [3, 2] [1, 2, 3, 4, 5, 6::int])) 1"
    by (simp_all add: scenario_a_def size_sub_def)
  show ?thesis
    using start_result[OF a b, of "\<lambda>_. True"] c by (auto simp: granted_def)
qed

section \<open>Produce after exhaustion\<close>

lemma split_flagged:
  "statuses m status = Some st \<Longrightarrow> no_more st \<noteq> 0 \<Longrightarrow>
   spt_SplitSparseTensor alloc sk m status = (m, Inl SPTERR_NO_MORE)"
  by (simp add: spt_SplitSparseTensor_def)

lemma split_NoMore_flagged:
  "statuses m status = Some st \<Longrightarrow>
   snd (spt_SplitSparseTensor alloc sk m status) = Inl SPTERR_NO_MORE \<Longrightarrow> no_more st \<noteq> 0"
  by (auto simp: spt_SplitSparseTensor_def split: option.splits prod.splits if_splits
           dest: split_body_error)

lemma repeat_split_flagged:
  "statuses m status = Some st \<Longrightarrow> no_more st \<noteq> 0 \<Longrightarrow>
   repeat_split n alloc sk m status = (m, replicate n (Inl SPTERR_NO_MORE))"
  by (induction n) (simp_all add: split_flagged)

text \<open>
  C3. On a live status, produce returns \<^verbatim>\<open>SPTERR_NO_MORE\<close> exactly if the exhaustion
  flag is set; and with the flag set, any number of further calls all return
  \<^verbatim>\<open>SPTERR_NO_MORE\<close> and leave the whole store, the status object included, as it was.
\<close>

theorem split_exhausted_idempotent:
  assumes "statuses m status = Some st"
  shows "(snd (spt_SplitSparseTensor alloc sk m status) = Inl SPTERR_NO_MORE)
           = (no_more st \<noteq> 0) \<and>
         (no_more st \<noteq> 0 \<longrightarrow>
            (\<forall>n. repeat_split n alloc sk m status
                   = (m, replicate n (Inl SPTERR_NO_MORE))))"
  using assms split_NoMore_flagged[OF assms, of alloc sk]
  by (auto simp: split_flagged repeat_split_flagged)

lemma exhausted_a_flag: "map_option no_more (statuses exhausted_a 0) = Some 1"
  by code_simp

theorem split_exhausted_idempotent_witness:
  "snd (spt_SplitSparseTensor (\<lambda>_. True) 1 exhausted_a 0) = Inl SPTERR_NO_MORE \<and>
   repeat_split 3 (\<lambda>_. True) 1 exhausted_a 0
     = (exhausted_a, [Inl SPTERR_NO_MORE, Inl SPTERR_NO_MORE, Inl SPTERR_NO_MORE])"
proof -
  obtain st where s: "statuses exhausted_a 0 = Some st" and f: "no_more st = 1"
    using exhausted_a_flag by auto
  show ?thesis
    using split_exhausted_idempotent[OF s, of "\<lambda>_. True" 1] f
    by (auto simp: numeral_3_eq_3)
qed

section \<open>Finish\<close>

text \<open>
  C8. Finish on a live status succeeds, leaves every tensor of the store exactly as it
  was (in particular the source tensor, with all its fields), and the handle refers to
  no status afterwards.
\<close>

theorem finish_leaves_tensors:
  assumes "statuses m status = Some st" and "tensors m a = Some t"
  shows "\<exists>m'. spt_FinishSplitSparseTensor m status = Inr m' \<and>
              tensors m' = tensors m \<and> tensors m' a = Some t \<and>
              statuses m' status = None"
  using assms by (simp add: spt_FinishSplitSparseTensor_def Let_def)

lemma started_a_status: "map_option tsr (statuses started_a 0) = Some (Some 0)"
  by code_simp

lemma started_a_tensor: "tensors started_a 0 = Some (scenario_a [3, 2] [1, 2, 3, 4, 5, 6])"
  by code_simp

theorem finish_leaves_tensors_witness:
  "\<exists>m'. spt_FinishSplitSparseTensor started_a 0 = Inr m' \<and>
         tensors m' = tensors started_a \<and>
         tensors m' 0 = Some (scenario_a [3, 2] [1, 2, 3, 4, 5, 6]) \<and>
         statuses m' 0 = None"
proof -
  obtain st where s: "statuses started_a 0 = Some st"
    using started_a_status by auto
  show ?thesis
    using finish_leaves_tensors[OF s started_a_tensor] by simp
qed

section \<open>Concrete runs\<close>

text \<open>
  C6. Scenario A with the cut counts 3 and 1: start and then produce until
  \<^verbatim>\<open>SPTERR_NO_MORE\<close> gives exactly three chunks, for the ranges \<open>[0, 2)\<close>, \<open>[2, 4)\<close> and
  \<open>[4, 6)\<close>, each with two nonzeros: the split is at the changes of the mode-0 index.
\<close>

theorem scenario_a_chunks:
  "split_all 7 (\<lambda>_. True) sk (one_tensor (scenario_a [d0, d1] [v0::'v::{zero,equal}, v1, v2, v3, v4, v5])) 0 [3, 1] =
     Some (Inr
       [\<lparr>cut_low = 0, cut_high = 2,
         dest = \<lparr>nmodes = 2, sortkey = sk, ndims = [d0, d1], nnz = 2,
                 inds = [\<lparr>len = 2, cap = 2, data = [0, 0]\<rparr>, \<lparr>len = 2, cap = 2, data = [0, 1]\<rparr>],
                 vals = \<lparr>len = 2, cap = 2, data = [v0, v1]\<rparr>\<rparr>\<rparr>,
        \<lparr>cut_low = 2, cut_high = 4,
         dest = \<lparr>nmodes = 2, sortkey = sk, ndims = [d0, d1], nnz = 2,
                 inds = [\<lparr>len = 2, cap = 2, data = [1, 1]\<rparr>, \<lparr>len = 2, cap = 2, data = [0, 1]\<rparr>],
                 vals = \<lparr>len = 2, cap = 2, data = [v2, v3]\<rparr>\<rparr>\<rparr>,
        \<lparr>cut_low = 4, cut_high = 6,
         dest = \<lparr>nmodes = 2, sortkey = sk, ndims = [d0, d1], nnz = 2,
                 inds = [\<lparr>len = 2, cap = 2, data = [2, 2]\<rparr>, \<lparr>len = 2, cap = 2, data = [0, 1]\<rparr>],
                 vals = \<lparr>len = 2, cap = 2, data = [v4, v5]\<rparr>\<rparr>\<rparr>])"
  by code_simp

text \<open>
  C9 fails on the code. The two vectors below satisfy the invariant, and the capacity of
  the first is not exhausted, so \<^verbatim>\<open>sptAppendVectorWithVector\<close> does not grow it; its
  second store goes to position 3 of a block of 2 cells. On the same vectors
  \<^verbatim>\<open>sptAppendSizeVectorWithVector\<close> grows the block to 4 cells and returns the three
  elements.
\<close>

theorem sptAppendVectorWithVector_overflow:
  "vec_inv \<lparr>len = 1, cap = 2, data = [7, 0::int]\<rparr> \<and>
   vec_inv \<lparr>len = 2, cap = 2, data = [8, 9::int]\<rparr> \<and>
   sptAppendVectorWithVector (\<lambda>_. True)
       \<lparr>len = 1, cap = 2, data = [7, 0::int]\<rparr> \<lparr>len = 2, cap = 2, data = [8, 9]\<rparr>
     = Inl MemoryFault \<and>
   map_sum id (\<lambda>w. (len w, cap w, vec_list w))
     (sptAppendSizeVectorWithVector (\<lambda>_. True)
        \<lparr>len = 1, cap = 2, data = [7, 0]\<rparr> \<lparr>len = 2, cap = 2, data = [8, 9]\<rparr>)
     = Inr (3, 4, [7, 8, 9])"
  by code_simp

text \<open>
  C4 fails on the code. On the full 2 by 2 tensor with the cut counts 1 and 2, the first
  produce descends at mode 1 over the range \<open>[0, 4)\<close> (level 1 of the range stack), where
  the mode-1 indices 0 1 0 1 have two distinct values: the step by the formula is 1, and
  the step the code pushes for mode 1 is 2.
\<close>

theorem index_step_counts_changes:
  "(case spt_StartSplitSparseTensor (\<lambda>_. True) (one_tensor (full_2x2 [v0::'v::{zero,equal}, v1, v2, v3])) 0 [1, 2] of
      Inl e \<Rightarrow> None
    | Inr (m1, status) \<Rightarrow>
        (case spt_SplitSparseTensor (\<lambda>_. True) sk m1 status of
           (m2, r) \<Rightarrow>
             map_option
               (\<lambda>st. (vec_list (partial_low st), vec_list (partial_high st),
                       vec_list (index_step st)))
               (statuses m2 status)))
     = Some ([0, 0, 2], [4, 4, 4], [2, 2]) \<and>
   distinct_count (data (inds (full_2x2 [v0, v1, v2, v3]) ! 1)) 0 4 = 2 \<and>
   size_sub (distinct_count (data (inds (full_2x2 [v0, v1, v2, v3]) ! 1)) 0 4) 1 div 2 + 1 = 1"
  by code_simp

text \<open>
  C5 fails on the code. On the full 2 by 2 tensor with the cut counts 1 and 100, mode 0
  is not cut, so mode 1 is partitioned over the parent range \<open>[0, 4)\<close>, where it has two
  distinct index values; the engine produces four partitions there.
\<close>

theorem partitions_exceed_distinct_values:
  "map_option (map_sum id (map (\<lambda>c. (cut_low c, cut_high c))))
       (split_all 5 (\<lambda>_. True) sk (one_tensor (full_2x2 [v0::'v::{zero,equal}, v1, v2, v3])) 0 [1, 100])
     = Some (Inr [(0, 1), (1, 2), (2, 3), (3, 4)]) \<and>
   distinct_count (data (inds (full_2x2 [v0, v1, v2, v3]) ! 1)) 0 4 = 2"
  by code_simp

section \<open>Vectors as stacks\<close>

lemma vec_list_length: "vec_inv v \<Longrightarrow> length (vec_list v) = len v"
  by (simp add: vec_inv_def vec_list_def)

lemma vec_list_nth: "i < len v \<Longrightarrow> vec_list v ! i = data v ! i"
  by (simp add: vec_list_def)

lemma sptAppendSizeVector_room:
  assumes "vec_inv v" and "len v < cap v"
  shows "sptAppendSizeVector alloc v x =
           Inr (v\<lparr>data := (data v)[len v := x], len := len v + 1\<rparr>)"
  using assms by (simp add: sptAppendSizeVector_def vec_store_def vec_inv_def)

lemma vec_push:
  assumes "vec_inv v" and "len v < cap v"
  shows "vec_inv (v\<lparr>data := (data v)[len v := x], len := len v + 1\<rparr>)"
    and "vec_list (v\<lparr>data := (data v)[len v := x], len := len v + 1\<rparr>) = vec_list v @ [x]"
  using assms by (simp_all add: vec_inv_def vec_list_def take_Suc_conv_app_nth)

lemma vec_pop:
  assumes "vec_inv v" and "0 < len v"
  shows "vec_inv (v\<lparr>len := size_sub (len v) 1\<rparr>)"
    and "vec_list (v\<lparr>len := size_sub (len v) 1\<rparr>) = butlast (vec_list v)"
  using assms by (auto simp: vec_inv_def vec_list_def size_sub_def butlast_take)

lemma vec_store_inside:
  assumes "vec_inv v" and "i < len v"
  shows "vec_store v i x = Inr (v\<lparr>data := (data v)[i := x]\<rparr>)"
  using assms by (simp add: vec_store_def vec_inv_def)

lemma vec_update:
  assumes "vec_inv v"
  shows "vec_inv (v\<lparr>data := (data v)[i := x]\<rparr>)"
    and "vec_list (v\<lparr>data := (data v)[i := x]\<rparr>) = (vec_list v)[i := x]"
  using assms by (simp_all add: vec_inv_def vec_list_def take_update_swap)

section \<open>The two scans\<close>

lemma count_indices_ge: "c \<le> count_indices idx i high l c"
proof (induction idx i high l c rule: count_indices.induct)
  case (1 idx i high l c)
  show ?case
  proof (cases "i < high")
    case False
    then show ?thesis by (simp add: count_indices.simps)
  next
    case True
    show ?thesis
    proof (cases "idx ! i \<noteq> l")
      case c: True
      with True "1.IH"(1)[OF True c] show ?thesis
        by (simp add: count_indices.simps[of idx i])
    next
      case c: False
      with True "1.IH"(2)[OF True c] show ?thesis
        by (simp add: count_indices.simps[of idx i])
    qed
  qed
qed

lemma scan_cut_bounds:
  "i \<le> high \<Longrightarrow> i \<le> scan_cut idx i high l c s \<and> scan_cut idx i high l c s \<le> high"
proof (induction idx i high l c s rule: scan_cut.induct)
  case (1 idx i high l c s)
  show ?case
  proof (cases "i < high")
    case False
    with "1.prems" show ?thesis by (simp add: scan_cut.simps)
  next
    case True
    show ?thesis
    proof (cases "idx ! i \<noteq> l")
      case c: True
      show ?thesis
      proof (cases "c = s")
        case True
        with \<open>i < high\<close> c show ?thesis by (simp add: scan_cut.simps[of idx i])
      next
        case False
        with True c "1.IH"(1)[OF True c False] show ?thesis
          by (simp add: scan_cut.simps[of idx i])
      qed
    next
      case c: False
      with True "1.IH"(2)[OF True c] show ?thesis
        by (simp add: scan_cut.simps[of idx i])
    qed
  qed
qed

lemma scan_cut_first:
  assumes "low < high"
  shows "low < scan_cut idx low high (idx ! low) c s"
    and "scan_cut idx low high (idx ! low) c s \<le> high"
proof -
  have "scan_cut idx low high (idx ! low) c s = scan_cut idx (low + 1) high (idx ! low) c s"
    using assms by (simp add: scan_cut.simps[of idx low])
  moreover have "low + 1 \<le> scan_cut idx (low + 1) high (idx ! low) c s"
    using assms scan_cut_bounds[of "low + 1" high idx "idx ! low" c s] by simp
  ultimately show "low < scan_cut idx low high (idx ! low) c s" by simp
  show "scan_cut idx low high (idx ! low) c s \<le> high"
    using assms scan_cut_bounds[of low high idx "idx ! low" c s] by simp
qed

section \<open>The invariant through the descend loop\<close>

lemma status_inv_lengths:
  assumes "status_inv t st"
  shows "length (vec_list (partial_low st)) = len (partial_high st)"
    and "length (vec_list (partial_high st)) = len (partial_high st)"
    and "len (partial_low st) = len (partial_high st)"
    and "length (vec_list (index_step st)) + 1 = len (partial_high st)"
    and "0 < len (partial_high st)"
proof -
  from assms have a: "list_all2 (<) (vec_list (partial_low st)) (vec_list (partial_high st))"
    and b: "vec_inv (partial_low st)" "vec_inv (partial_high st)" "vec_inv (index_step st)"
    and c: "len (index_step st) + 1 = len (partial_high st)"
    by (simp_all add: status_inv_def)
  show h: "length (vec_list (partial_high st)) = len (partial_high st)"
    using b by (simp add: vec_list_length)
  show l: "length (vec_list (partial_low st)) = len (partial_high st)"
    using list_all2_lengthD[OF a] h by simp
  show "len (partial_low st) = len (partial_high st)"
    using l b by (simp add: vec_list_length)
  show "length (vec_list (index_step st)) + 1 = len (partial_high st)"
    using b c by (simp add: vec_list_length)
  show "0 < len (partial_high st)" using c by simp
qed

lemma sorted_wrt_ge_last:
  assumes "sorted_wrt (\<ge>) (hs::nat list)" and "x \<in> set hs"
  shows "last hs \<le> x"
proof -
  from assms(2) obtain i where i: "i < length hs" "hs ! i = x"
    by (auto simp: in_set_conv_nth)
  then have ne: "hs \<noteq> []" by auto
  show ?thesis
  proof (cases "i = length hs - 1")
    case True
    with i ne show ?thesis by (simp add: last_conv_nth)
  next
    case False
    with i have "i < length hs - 1" by simp
    with i ne have "hs ! (length hs - 1) \<le> hs ! i"
      using sorted_wrt_nth_less[OF assms(1), of i "length hs - 1"] by simp
    with i ne show ?thesis by (simp add: last_conv_nth)
  qed
qed

lemma descend_body_inv:
  assumes inv: "status_inv t st" and lv: "len (partial_low st) = mode + 1"
    and md: "mode < nmodes t"
  shows "\<exists>st'. descend_body alloc t st mode = (st', None) \<and> status_inv t st' \<and>
           len (partial_low st') = mode + 2 \<and>
           last (vec_list (partial_low st')) = last (vec_list (partial_low st)) \<and>
           tsr st' = tsr st \<and> no_more st' = no_more st \<and>
           vec_list (index_step st') = vec_list (index_step st) @
             [size_sub
                (count_indices (data (inds t ! mode))
                   (last (vec_list (partial_low st))) (last (vec_list (partial_high st)))
                   (data (inds t ! mode) ! last (vec_list (partial_low st))) 1) 1
              div vec_list (cuts_by_mode st) ! mode + 1]"
proof -
  note ln = status_inv_lengths[OF inv]
  from inv have vi: "vec_inv (partial_low st)" "vec_inv (partial_high st)"
      "vec_inv (index_step st)" "vec_inv (cuts_by_mode st)"
    and cp: "nmodes t + 1 \<le> cap (partial_low st)" "nmodes t + 1 \<le> cap (partial_high st)"
      "nmodes t \<le> cap (index_step st)"
    and cb: "len (cuts_by_mode st) = nmodes t"
      "list_all (\<lambda>c. 0 < c) (vec_list (cuts_by_mode st))"
    and rg: "list_all2 (<) (vec_list (partial_low st)) (vec_list (partial_high st))"
    and so: "sorted_wrt (\<ge>) (vec_list (partial_high st))"
    and hd: "hd (vec_list (partial_high st)) = nnz t"
    and ub: "len (partial_high st) \<le> nmodes t + 1"
    by (simp_all add: status_inv_def)
  define low where "low = data (partial_low st) ! mode"
  define high where "high = data (partial_high st) ! mode"
  have lh: "len (partial_high st) = mode + 1" and li: "len (index_step st) = mode"
    using ln lv vi by (simp_all add: vec_list_length)
  have nel: "vec_list (partial_low st) \<noteq> []" and neh: "vec_list (partial_high st) \<noteq> []"
    using ln lh by auto
  have low_last: "low = last (vec_list (partial_low st))"
    using ln lh lv nel by (simp add: low_def last_conv_nth vec_list_nth)
  have high_last: "high = last (vec_list (partial_high st))"
    using ln lh neh by (simp add: high_def last_conv_nth vec_list_nth)
  have lt: "low < high"
    using list_all2_nthD[OF rg, of mode] ln lh lv
    by (simp add: low_def high_def vec_list_nth)
  have cpos: "0 < data (cuts_by_mode st) ! mode"
    using cb md vi(4) by (simp add: list_all_length vec_list_length vec_list_nth)
  define idx where "idx = data (inds t ! mode)"
  define cnt where "cnt = count_indices idx low high (idx ! low) 1"
  have cnt1: "cnt \<noteq> 0"
    using count_indices_ge[of 1 idx low high "idx ! low"] by (simp add: cnt_def)
  define step where "step = size_sub cnt 1 div data (cuts_by_mode st) ! mode + 1"
  define istep where
    "istep = (index_step st)\<lparr>data := (data (index_step st))[mode := step], len := mode + 1\<rparr>"
  define i where "i = scan_cut idx low high (idx ! low) 1 step"
  define pl where
    "pl = (partial_low st)\<lparr>data := (data (partial_low st))[mode + 1 := low], len := mode + 2\<rparr>"
  define ph where
    "ph = (partial_high st)\<lparr>data := (data (partial_high st))[mode + 1 := i], len := mode + 2\<rparr>"
  define st' where "st' = st\<lparr>index_step := istep, partial_low := pl, partial_high := ph\<rparr>"
  have a1: "sptAppendSizeVector alloc (index_step st) step = Inr istep"
    using sptAppendSizeVector_room[OF vi(3), of alloc step] li md cp by (simp add: istep_def)
  have rd: "data istep ! mode = step"
    using vi(3) li md cp by (simp add: istep_def vec_inv_def)
  have a2: "sptAppendSizeVector alloc (partial_low st) low = Inr pl"
    using sptAppendSizeVector_room[OF vi(1), of alloc low] lv md cp by (simp add: pl_def)
  have a3: "sptAppendSizeVector alloc (partial_high st) i = Inr ph"
    using sptAppendSizeVector_room[OF vi(2), of alloc i] lh md cp by (simp add: ph_def)
  have res: "descend_body alloc t st mode = (st', None)"
    using lt cpos cnt1 a1 a2 a3 rd
    unfolding descend_body_def Let_def st'_def pl_def ph_def i_def istep_def step_def
      cnt_def idx_def low_def high_def
    by simp
  have ib: "low < i" "i \<le> high"
    using scan_cut_first[OF lt, of idx 1 step] by (simp_all add: i_def)
  have vpl: "vec_inv pl" "vec_list pl = vec_list (partial_low st) @ [low]"
    using vec_push[OF vi(1), of low] lv md cp by (simp_all add: pl_def)
  have vph: "vec_inv ph" "vec_list ph = vec_list (partial_high st) @ [i]"
    using vec_push[OF vi(2), of i] lh md cp by (simp_all add: ph_def)
  have vis: "vec_inv istep" "vec_list istep = vec_list (index_step st) @ [step]"
    using vec_push[OF vi(3), of step] li md cp by (simp_all add: istep_def)
  have stp: "step = size_sub
                (count_indices (data (inds t ! mode))
                   (last (vec_list (partial_low st))) (last (vec_list (partial_high st)))
                   (data (inds t ! mode) ! last (vec_list (partial_low st))) 1) 1
              div vec_list (cuts_by_mode st) ! mode + 1"
    using cb md low_last high_last
    by (simp add: step_def cnt_def idx_def vec_list_nth)
  have r2: "list_all2 (<) (vec_list pl) (vec_list ph)"
    using rg ib by (simp add: vpl vph list_all2_appendI)
  have "\<forall>x\<in>set (vec_list (partial_high st)). i \<le> x"
    using ib sorted_wrt_ge_last[OF so] high_last by (auto intro: order_trans)
  then have s2: "sorted_wrt (\<ge>) (vec_list ph)"
    using so by (simp add: vph sorted_wrt_append)
  have h2: "hd (vec_list ph) = nnz t"
    using hd neh by (simp add: vph)
  have "status_inv t st'"
    unfolding status_inv_def
    using vpl(1) vph(1) vis(1) vi(4) cp cb r2 s2 h2 md
    by (simp add: st'_def pl_def ph_def istep_def)
  moreover have "len (partial_low st') = mode + 2"
    by (simp add: st'_def pl_def)
  moreover have "last (vec_list (partial_low st')) = last (vec_list (partial_low st))"
    using low_last by (simp add: st'_def vpl)
  moreover have "tsr st' = tsr st" "no_more st' = no_more st"
    by (simp_all add: st'_def)
  moreover have "vec_list (index_step st') = vec_list (index_step st) @
             [size_sub
                (count_indices (data (inds t ! mode))
                   (last (vec_list (partial_low st))) (last (vec_list (partial_high st)))
                   (data (inds t ! mode) ! last (vec_list (partial_low st))) 1) 1
              div vec_list (cuts_by_mode st) ! mode + 1]"
    using vis(2) stp by (simp add: st'_def)
  ultimately show ?thesis using res by blast
qed

lemma descend_inv:
  assumes "status_inv t st" and "len (partial_low st) = mode + 1" and "mode \<le> nmodes t"
  shows "\<exists>st'. descend alloc t st mode = (st', None) \<and> status_inv t st' \<and>
           len (partial_low st') = nmodes t + 1 \<and>
           last (vec_list (partial_low st')) = last (vec_list (partial_low st)) \<and>
           tsr st' = tsr st \<and> no_more st' = no_more st"
  using assms
proof (induction alloc t st mode rule: descend.induct)
  case (1 alloc t st mode)
  show ?case
  proof (cases "mode < nmodes t")
    case False
    with "1.prems" show ?thesis by (simp add: descend.simps)
  next
    case True
    from descend_body_inv[OF "1.prems"(1,2) True, of alloc] obtain st1 where
      b: "descend_body alloc t st mode = (st1, None)" and i1: "status_inv t st1"
      and l1: "len (partial_low st1) = mode + 1 + 1"
      and k1: "last (vec_list (partial_low st1)) = last (vec_list (partial_low st))"
        "tsr st1 = tsr st" "no_more st1 = no_more st"
      by auto
    from True have m1: "mode + 1 \<le> nmodes t" by simp
    from "1.IH"[OF True b[symmetric] refl i1 l1 m1] obtain st' where
      "descend alloc t st1 (mode + 1) = (st', None)" "status_inv t st'"
      "len (partial_low st') = nmodes t + 1"
      "last (vec_list (partial_low st')) = last (vec_list (partial_low st1))"
      "tsr st' = tsr st1" "no_more st' = no_more st1"
      by auto
    with True b k1 show ?thesis
      by (simp add: descend.simps[of alloc t st mode])
  qed
qed

section \<open>The invariant through the backtrack loop\<close>

lemma last_butlast_nth: "length xs = Suc (Suc k) \<Longrightarrow> last (butlast xs) = xs ! k"
proof -
  assume a: "length xs = Suc (Suc k)"
  then have "butlast xs \<noteq> []" by (cases xs) auto
  with a show ?thesis by (simp add: last_conv_nth nth_butlast)
qed

lemma list_update_last: "length xs = Suc n \<Longrightarrow> xs[n := x] = butlast xs @ [x]"
  by (induction xs arbitrary: n) (auto split: nat.splits)

lemma status_inv_pop:
  assumes inv: "status_inv t st" and lh: "len (partial_high st) = Suc (Suc k)"
  shows "status_inv t
           (st\<lparr>partial_low := (partial_low st)\<lparr>len := size_sub (len (partial_low st)) 1\<rparr>,
               partial_high := (partial_high st)\<lparr>len := size_sub (len (partial_high st)) 1\<rparr>,
               index_step := (index_step st)\<lparr>len := size_sub (len (index_step st)) 1\<rparr>\<rparr>)"
proof -
  note ln = status_inv_lengths[OF inv]
  from inv have vi: "vec_inv (partial_low st)" "vec_inv (partial_high st)"
      "vec_inv (index_step st)" "vec_inv (cuts_by_mode st)"
    and cp: "nmodes t + 1 \<le> cap (partial_low st)" "nmodes t + 1 \<le> cap (partial_high st)"
      "nmodes t \<le> cap (index_step st)"
    and cb: "len (cuts_by_mode st) = nmodes t"
      "list_all (\<lambda>c. 0 < c) (vec_list (cuts_by_mode st))"
    and rg: "list_all2 (<) (vec_list (partial_low st)) (vec_list (partial_high st))"
    and so: "sorted_wrt (\<ge>) (vec_list (partial_high st))"
    and hd: "hd (vec_list (partial_high st)) = nnz t"
    and ub: "len (partial_high st) \<le> nmodes t + 1"
    and li: "len (index_step st) + 1 = len (partial_high st)"
    by (simp_all add: status_inv_def)
  have p1: "vec_inv ((partial_low st)\<lparr>len := size_sub (len (partial_low st)) 1\<rparr>)"
      "vec_list ((partial_low st)\<lparr>len := size_sub (len (partial_low st)) 1\<rparr>)
         = butlast (vec_list (partial_low st))"
    using vec_pop[OF vi(1)] ln lh by simp_all
  have p2: "vec_inv ((partial_high st)\<lparr>len := size_sub (len (partial_high st)) 1\<rparr>)"
      "vec_list ((partial_high st)\<lparr>len := size_sub (len (partial_high st)) 1\<rparr>)
         = butlast (vec_list (partial_high st))"
    using vec_pop[OF vi(2)] lh by simp_all
  have p3: "vec_inv ((index_step st)\<lparr>len := size_sub (len (index_step st)) 1\<rparr>)"
    using vec_pop(1)[OF vi(3)] li lh by simp
  have r: "list_all2 (<) (butlast (vec_list (partial_low st)))
             (butlast (vec_list (partial_high st)))"
    using list_all2_takeI[OF rg, of "Suc k"] ln lh by (simp add: butlast_conv_take)
  have s: "sorted_wrt (\<ge>) (butlast (vec_list (partial_high st)))"
    using sorted_wrt_take[OF so, of "Suc k"] ln lh by (simp add: butlast_conv_take)
  have h: "hd (butlast (vec_list (partial_high st))) = nnz t"
    using hd ln(2) lh by (cases "vec_list (partial_high st)") auto
  show ?thesis
    unfolding status_inv_def
    using p1 p2 p3 vi(4) cp cb r s h li lh ub
    by (simp add: size_sub_def)
qed

lemma status_inv_high_le:
  assumes inv: "status_inv t st" and "k < len (partial_high st)"
  shows "vec_list (partial_high st) ! k \<le> nnz t"
proof -
  note ln = status_inv_lengths[OF inv]
  from inv have so: "sorted_wrt (\<ge>) (vec_list (partial_high st))"
    and hd: "hd (vec_list (partial_high st)) = nnz t"
    by (simp_all add: status_inv_def)
  have z: "vec_list (partial_high st) ! 0 = nnz t"
    using hd ln(2,5) by (cases "vec_list (partial_high st)") auto
  show ?thesis
  proof (cases k)
    case 0
    with z show ?thesis by simp
  next
    case (Suc j)
    with sorted_wrt_nth_less[OF so, of 0 k] assms(2) ln(2) z show ?thesis by simp
  qed
qed

lemma backtrack_inv:
  assumes "status_inv t st" and "len (partial_high st) = mode + 1"
  shows "\<exists>st'. backtrack t st mode = (st', None) \<and> status_inv t st' \<and> tsr st' = tsr st \<and>
           ((no_more st' = no_more st \<and>
             last (vec_list (partial_low st')) = last (vec_list (partial_high st)) \<and>
             last (vec_list (partial_high st)) < nnz t) \<or>
            (no_more st' = 1 \<and> last (vec_list (partial_high st)) = nnz t))"
  using assms
proof (induction t st mode rule: backtrack.induct)
  case (1 t st mode)
  note inv = "1.prems"(1) and lh = "1.prems"(2)
  note ln = status_inv_lengths[OF inv]
  from inv have vi: "vec_inv (partial_low st)" "vec_inv (partial_high st)"
      "vec_inv (index_step st)" "vec_inv (cuts_by_mode st)"
    and cp: "nmodes t + 1 \<le> cap (partial_low st)" "nmodes t + 1 \<le> cap (partial_high st)"
      "nmodes t \<le> cap (index_step st)"
    and cb: "len (cuts_by_mode st) = nmodes t"
      "list_all (\<lambda>c. 0 < c) (vec_list (cuts_by_mode st))"
    and rg: "list_all2 (<) (vec_list (partial_low st)) (vec_list (partial_high st))"
    and so: "sorted_wrt (\<ge>) (vec_list (partial_high st))"
    and hd: "hd (vec_list (partial_high st)) = nnz t"
    and ub: "len (partial_high st) \<le> nmodes t + 1"
    and li: "len (index_step st) + 1 = len (partial_high st)"
    by (simp_all add: status_inv_def)
  have neh: "vec_list (partial_high st) \<noteq> []" using ln lh by auto
  have top: "last (vec_list (partial_high st)) = data (partial_high st) ! mode"
    using ln lh neh by (simp add: last_conv_nth vec_list_nth)
  show ?case
  proof (cases "mode > 0")
    case False
    then have m0: "mode = 0" by simp
    have "last (vec_list (partial_high st)) = nnz t"
      using hd ln(2) lh m0 by (cases "vec_list (partial_high st)") auto
    moreover have "status_inv t (st\<lparr>no_more := 1\<rparr>)"
      using inv by (simp add: status_inv_def)
    ultimately show ?thesis
      using m0 by (simp add: backtrack.simps[of t st 0])
  next
    case True
    then obtain k where k: "mode = Suc k" by (cases mode) auto
    define low where "low = data (partial_high st) ! (mode - 1 + 1)"
    define high where "high = data (partial_high st) ! (mode - 1)"
    have low_top: "low = last (vec_list (partial_high st))"
      using top k by (simp add: low_def)
    have high_nth: "high = vec_list (partial_high st) ! k"
      using lh k by (simp add: high_def vec_list_nth)
    have chain: "low \<le> high"
      using sorted_wrt_nth_less[OF so, of k mode] ln(2) lh k top low_top high_nth
      by (simp add: vec_list_nth)
    have high_le: "high \<le> nnz t"
      using status_inv_high_le[OF inv, of k] lh k high_nth by simp
    show ?thesis
    proof (cases "low \<ge> high")
      case pop: True
      define st1 where "st1 =
        st\<lparr>partial_low := (partial_low st)\<lparr>len := size_sub (len (partial_low st)) 1\<rparr>,
           partial_high := (partial_high st)\<lparr>len := size_sub (len (partial_high st)) 1\<rparr>,
           index_step := (index_step st)\<lparr>len := size_sub (len (index_step st)) 1\<rparr>\<rparr>"
      have i1: "status_inv t st1"
        unfolding st1_def using status_inv_pop[OF inv, of k] lh k by simp
      have l1: "len (partial_high st1) = mode - 1 + 1"
        using lh k by (simp add: st1_def size_sub_def)
      have t1: "last (vec_list (partial_high st1)) = last (vec_list (partial_high st))"
      proof -
        have "vec_list (partial_high st1) = butlast (vec_list (partial_high st))"
          using vec_pop(2)[OF vi(2)] lh by (simp add: st1_def)
        moreover have "last (butlast (vec_list (partial_high st))) = high"
          using ln(2) lh k high_nth by (simp add: last_butlast_nth)
        ultimately show ?thesis using pop chain low_top by simp
      qed
      have pop': "data (partial_high st) ! (mode - 1) \<le> data (partial_high st) ! (mode - 1 + 1)"
        using pop by (simp add: low_def high_def)
      from "1.IH"[OF True refl refl refl pop' i1[unfolded st1_def] l1[unfolded st1_def]]
      obtain st' where
        r: "backtrack t st1 (mode - 1) = (st', None)" "status_inv t st'" "tsr st' = tsr st1"
        "(no_more st' = no_more st1 \<and>
             last (vec_list (partial_low st')) = last (vec_list (partial_high st1)) \<and>
             last (vec_list (partial_high st1)) < nnz t) \<or>
            (no_more st' = 1 \<and> last (vec_list (partial_high st1)) = nnz t)"
        unfolding st1_def[symmetric] by auto
      have "backtrack t st mode = backtrack t st1 (mode - 1)"
        using True pop' by (simp add: backtrack.simps[of t st mode] Let_def st1_def)
      moreover have "tsr st1 = tsr st" "no_more st1 = no_more st" by (simp_all add: st1_def)
      ultimately show ?thesis using r t1 by auto
    next
      case False
      then have lt: "low < high" by simp
      define idx where "idx = data (inds t ! (mode - 1))"
      define i where
        "i = scan_cut idx low high (idx ! low) 1 (data (index_step st) ! (mode - 1))"
      have ib: "low < i" "i \<le> high"
        using scan_cut_first[OF lt, of idx 1 "data (index_step st) ! (mode - 1)"]
        by (simp_all add: i_def)
      define pl where "pl = (partial_low st)\<lparr>data := (data (partial_low st))[mode := low]\<rparr>"
      define ph where "ph = (partial_high st)\<lparr>data := (data (partial_high st))[mode := i]\<rparr>"
      define st' where "st' = st\<lparr>partial_low := pl, partial_high := ph\<rparr>"
      have s1: "vec_store (partial_low st) (mode - 1 + 1) low = Inr pl"
        using vec_store_inside[OF vi(1), of mode low] ln lh k by (simp add: pl_def)
      have s2: "vec_store (partial_high st) (mode - 1 + 1) i = Inr ph"
        using vec_store_inside[OF vi(2), of mode i] lh k by (simp add: ph_def)
      have res: "backtrack t st mode = (st', None)"
        using True lt s1 s2
        unfolding backtrack.simps[of t st mode] Let_def st'_def i_def idx_def low_def high_def
        by simp
      have vpl: "vec_inv pl" "vec_list pl = butlast (vec_list (partial_low st)) @ [low]"
        using vec_update[OF vi(1), of mode low] ln lh
        by (simp_all add: pl_def list_update_last)
      have vph: "vec_inv ph" "vec_list ph = butlast (vec_list (partial_high st)) @ [i]"
        using vec_update[OF vi(2), of mode i] ln lh
        by (simp_all add: ph_def list_update_last)
      have r0: "list_all2 (<) (butlast (vec_list (partial_low st)))
             (butlast (vec_list (partial_high st)))"
        using list_all2_takeI[OF rg, of mode] ln lh by (simp add: butlast_conv_take)
      have r2: "list_all2 (<) (vec_list pl) (vec_list ph)"
        using r0 ib by (simp add: vpl vph list_all2_appendI)
      have s0: "sorted_wrt (\<ge>) (butlast (vec_list (partial_high st)))"
        using sorted_wrt_take[OF so, of mode] ln lh by (simp add: butlast_conv_take)
      have lb: "last (butlast (vec_list (partial_high st))) = high"
        using ln(2) lh k high_nth by (simp add: last_butlast_nth)
      have "\<forall>x\<in>set (butlast (vec_list (partial_high st))). i \<le> x"
        using ib sorted_wrt_ge_last[OF s0] lb by (auto intro: order_trans)
      then have s2': "sorted_wrt (\<ge>) (vec_list ph)"
        using s0 by (simp add: vph sorted_wrt_append)
      have h2: "hd (vec_list ph) = nnz t"
        using hd ln(2) lh k by (cases "vec_list (partial_high st)") (auto simp: vph)
      have "status_inv t st'"
        unfolding status_inv_def
        using vpl(1) vph(1) vi(3,4) cp cb r2 s2' h2 li ub
        by (simp add: st'_def pl_def ph_def)
      moreover have "tsr st' = tsr st" "no_more st' = no_more st" by (simp_all add: st'_def)
      moreover have "last (vec_list (partial_low st')) = last (vec_list (partial_high st))"
        using low_top by (simp add: st'_def vpl)
      moreover have "last (vec_list (partial_high st)) < nnz t"
        using low_top lt high_le by simp
      ultimately show ?thesis using res by blast
    qed
  qed
qed

section \<open>Materialization\<close>

lemma sptResizeSizeVector_spec:
  assumes "vec_inv v"
  shows "sptResizeSizeVector alloc v n = Inr w \<Longrightarrow>
           vec_inv w \<and> len w = n \<and> n \<le> length (data w)"
    and "granted alloc \<Longrightarrow> \<exists>w. sptResizeSizeVector alloc v n = Inr w"
  using assms
  by (auto simp: sptResizeSizeVector_def realloc_cells_def vec_inv_def Let_def granted_def
           split: if_splits)

lemma sptResizeVector_spec:
  assumes "vec_inv v"
  shows "sptResizeVector alloc v n = Inr w \<Longrightarrow>
           vec_inv w \<and> len w = n \<and> n \<le> length (data w)"
    and "granted alloc \<Longrightarrow> \<exists>w. sptResizeVector alloc v n = Inr w"
  using assms
  by (auto simp: sptResizeVector_def realloc_cells_def vec_inv_def Let_def granted_def
           split: if_splits)

lemma slice_of_vec_list:
  assumes "lo \<le> hi" and "hi \<le> len v"
  shows "take (hi - lo) (drop lo (vec_list v)) = take (hi - lo) (drop lo (data v))"
  using assms by (simp add: vec_list_def drop_take min_def)

lemma memcpy_into:
  assumes "vec_inv w" and "len w = hi - lo" and "hi - lo \<le> length (data w)"
    and "lo \<le> hi" and "hi \<le> length src"
  shows "\<exists>d. memcpy_cells (data w) src lo (hi - lo) = Inr d \<and>
              vec_inv (w\<lparr>data := d\<rparr>) \<and>
              vec_list (w\<lparr>data := d\<rparr>) = take (hi - lo) (drop lo src)"
  using assms by (auto simp: memcpy_cells_def vec_inv_def vec_list_def min_def)

lemma resize_then_copy:
  assumes v: "vec_inv v" and b: "lo \<le> hi" and s: "hi \<le> length src"
  shows "(\<forall>e. sptResizeVector alloc v (hi - lo) = Inl e \<longrightarrow> e = SPTERR_OS_ERROR) \<and>
      (\<forall>w. sptResizeVector alloc v (hi - lo) = Inr w \<longrightarrow>
         (\<exists>dd. memcpy_cells (data w) src lo (hi - lo) = Inr dd \<and>
              vec_inv (w\<lparr>data := dd\<rparr>) \<and> len (w\<lparr>data := dd\<rparr>) = hi - lo \<and>
              vec_list (w\<lparr>data := dd\<rparr>) = take (hi - lo) (drop lo src)))"
proof (intro conjI allI impI)
  fix e
  assume "sptResizeVector alloc v (hi - lo) = Inl e"
  then show "e = SPTERR_OS_ERROR" by (rule sptResizeVector_error)
next
  fix w
  assume r: "sptResizeVector alloc v (hi - lo) = Inr w"
  from sptResizeVector_spec(1)[OF v r]
  have w: "vec_inv w" "len w = hi - lo" "hi - lo \<le> length (data w)" by simp_all
  from memcpy_into[OF w b s] w(2)
  show "\<exists>dd. memcpy_cells (data w) src lo (hi - lo) = Inr dd \<and>
              vec_inv (w\<lparr>data := dd\<rparr>) \<and> len (w\<lparr>data := dd\<rparr>) = hi - lo \<and>
              vec_list (w\<lparr>data := dd\<rparr>) = take (hi - lo) (drop lo src)"
    by auto
qed

lemma copy_mode_spec:
  assumes wf: "wf_tensor t" and b: "lo \<le> hi" "hi \<le> nnz t"
    and m: "mode < nmodes t" and l: "length (inds d) = nmodes t"
    and v: "vec_inv (inds d ! mode)"
  shows "copy_mode alloc t d lo hi mode = Inl e \<Longrightarrow> e = SPTERR_OS_ERROR"
    and "copy_mode alloc t d lo hi mode = Inr d' \<Longrightarrow>
           \<exists>w. d' = d\<lparr>inds := (inds d)[mode := w]\<rparr> \<and> vec_inv w \<and>
               vec_list w = take (hi - lo) (drop lo (vec_list (inds t ! mode)))"
    and "granted alloc \<Longrightarrow> \<exists>d'. copy_mode alloc t d lo hi mode = Inr d'"
proof -
  have src: "len (inds t ! mode) = nnz t" "nnz t \<le> length (data (inds t ! mode))"
    using wf m by (simp_all add: wf_tensor_def list_all_length)
  have ss: "size_sub hi lo = hi - lo" using b by (simp add: size_sub_def)
  have cp: "\<And>w. sptResizeSizeVector alloc (inds d ! mode) (hi - lo) = Inr w \<Longrightarrow>
     \<exists>dd. memcpy_cells (data w) (data (inds t ! mode)) lo (hi - lo) = Inr dd \<and>
              vec_inv (w\<lparr>data := dd\<rparr>) \<and>
              vec_list (w\<lparr>data := dd\<rparr>) = take (hi - lo) (drop lo (vec_list (inds t ! mode)))"
  proof -
    fix w assume "sptResizeSizeVector alloc (inds d ! mode) (hi - lo) = Inr w"
    from sptResizeSizeVector_spec(1)[OF v this]
    have w: "vec_inv w" "len w = hi - lo" "hi - lo \<le> length (data w)" by simp_all
    have "hi \<le> length (data (inds t ! mode))" using b src by simp
    from memcpy_into[OF w b(1) this] slice_of_vec_list[of lo hi "inds t ! mode"] b src
    show "\<exists>dd. memcpy_cells (data w) (data (inds t ! mode)) lo (hi - lo) = Inr dd \<and>
              vec_inv (w\<lparr>data := dd\<rparr>) \<and>
              vec_list (w\<lparr>data := dd\<rparr>) = take (hi - lo) (drop lo (vec_list (inds t ! mode)))"
      by auto
  qed
  show "copy_mode alloc t d lo hi mode = Inl e \<Longrightarrow> e = SPTERR_OS_ERROR"
    using cp by (auto simp: copy_mode_def ss split: sum.splits dest: sptResizeSizeVector_error)
  show "copy_mode alloc t d lo hi mode = Inr d' \<Longrightarrow>
           \<exists>w. d' = d\<lparr>inds := (inds d)[mode := w]\<rparr> \<and> vec_inv w \<and>
               vec_list w = take (hi - lo) (drop lo (vec_list (inds t ! mode)))"
    using cp by (fastforce simp: copy_mode_def ss split: sum.splits)
  show "granted alloc \<Longrightarrow> \<exists>d'. copy_mode alloc t d lo hi mode = Inr d'"
  proof -
    assume "granted alloc"
    from sptResizeSizeVector_spec(2)[OF v this, of "hi - lo"] obtain w where
      w: "sptResizeSizeVector alloc (inds d ! mode) (hi - lo) = Inr w" by auto
    from cp[OF w] w show ?thesis by (auto simp: copy_mode_def ss)
  qed
qed

lemma copy_inds_spec:
  assumes wf: "wf_tensor t" and b: "lo \<le> hi" "hi \<le> nnz t"
    and l: "length (inds d) = nmodes t" and v: "list_all vec_inv (inds d)"
  shows "(\<forall>e. copy_inds alloc t d lo hi mode = Inl e \<longrightarrow> e = SPTERR_OS_ERROR) \<and>
         (\<forall>d'. copy_inds alloc t d lo hi mode = Inr d' \<longrightarrow>
            nmodes d' = nmodes d \<and> sortkey d' = sortkey d \<and> ndims d' = ndims d \<and>
            nnz d' = nnz d \<and> vals d' = vals d \<and> length (inds d') = nmodes t \<and>
            list_all vec_inv (inds d') \<and>
            (\<forall>k<nmodes t.
               if k < mode then inds d' ! k = inds d ! k
               else vec_list (inds d' ! k) = take (hi - lo) (drop lo (vec_list (inds t ! k))))) \<and>
         (granted alloc \<longrightarrow> (\<exists>d'. copy_inds alloc t d lo hi mode = Inr d'))"
  using wf b l v
proof (induction alloc t d lo hi mode rule: copy_inds.induct)
  case (1 alloc t d lo hi mode)
  note wf = "1.prems"(1) and b = "1.prems"(2,3) and l = "1.prems"(4) and v = "1.prems"(5)
  show ?case
  proof (cases "mode < nmodes t")
    case False
    then show ?thesis by (simp add: copy_inds.simps[of _ t d lo hi mode] l v)
  next
    case True
    have vm: "vec_inv (inds d ! mode)"
      using v l True by (simp add: list_all_length)
    note cm = copy_mode_spec[OF wf b True l vm]
    have unf: "copy_inds alloc t d lo hi mode =
       (case copy_mode alloc t d lo hi mode of
          Inl e \<Rightarrow> Inl e
        | Inr dest1 \<Rightarrow> copy_inds alloc t dest1 lo hi (mode + 1))"
      using True by (simp add: copy_inds.simps[of alloc t d])
    show ?thesis
    proof (cases "copy_mode alloc t d lo hi mode")
      case (Inl e1)
      with cm(1)[of alloc e1] cm(3)[of alloc] show ?thesis
        by (auto simp: unf)
    next
      case (Inr d1)
      from cm(2)[OF Inr] obtain w where
        d1: "d1 = d\<lparr>inds := (inds d)[mode := w]\<rparr>" and w: "vec_inv w"
        "vec_list w = take (hi - lo) (drop lo (vec_list (inds t ! mode)))"
        by auto
      have l1: "length (inds d1) = nmodes t" using l by (simp add: d1)
      have v1: "list_all vec_inv (inds d1)"
        using v w(1) l True by (auto simp: d1 list_all_length nth_list_update)
      have at: "inds d1 ! mode = w" using l True by (simp add: d1)
      have below: "\<And>k. k < mode \<Longrightarrow> inds d1 ! k = inds d ! k" by (simp add: d1)
      have f: "nmodes d1 = nmodes d" "sortkey d1 = sortkey d" "ndims d1 = ndims d"
        "nnz d1 = nnz d" "vals d1 = vals d"
        by (simp_all add: d1)
      note ih = "1.IH"[OF True Inr wf b l1 v1]
      have u2: "copy_inds alloc t d lo hi mode = copy_inds alloc t d1 lo hi (mode + 1)"
        by (simp add: unf Inr)
      have p1: "\<forall>e. copy_inds alloc t d lo hi mode = Inl e \<longrightarrow> e = SPTERR_OS_ERROR"
        using ih u2 by simp
      have p3: "granted alloc \<longrightarrow> (\<exists>d'. copy_inds alloc t d lo hi mode = Inr d')"
        using ih u2 by simp
      have p2: "\<forall>d'. copy_inds alloc t d lo hi mode = Inr d' \<longrightarrow>
            nmodes d' = nmodes d \<and> sortkey d' = sortkey d \<and> ndims d' = ndims d \<and>
            nnz d' = nnz d \<and> vals d' = vals d \<and> length (inds d') = nmodes t \<and>
            list_all vec_inv (inds d') \<and>
            (\<forall>k<nmodes t.
               if k < mode then inds d' ! k = inds d ! k
               else vec_list (inds d' ! k) = take (hi - lo) (drop lo (vec_list (inds t ! k))))"
      proof (intro allI impI)
        fix d' assume r: "copy_inds alloc t d lo hi mode = Inr d'"
        with ih u2 have p: "nmodes d' = nmodes d1" "sortkey d' = sortkey d1"
          "ndims d' = ndims d1" "nnz d' = nnz d1" "vals d' = vals d1"
          "length (inds d') = nmodes t" "list_all vec_inv (inds d')"
          and q: "\<forall>k<nmodes t.
               if k < mode + 1 then inds d' ! k = inds d1 ! k
               else vec_list (inds d' ! k) = take (hi - lo) (drop lo (vec_list (inds t ! k)))"
          by simp_all
        have "\<forall>k<nmodes t.
               if k < mode then inds d' ! k = inds d ! k
               else vec_list (inds d' ! k) = take (hi - lo) (drop lo (vec_list (inds t ! k)))"
        proof (intro allI impI)
          fix k assume k: "k < nmodes t"
          show "if k < mode then inds d' ! k = inds d ! k
               else vec_list (inds d' ! k) = take (hi - lo) (drop lo (vec_list (inds t ! k)))"
          proof (cases "k < mode")
            case True
            with q k below show ?thesis by simp
          next
            case False
            show ?thesis
            proof (cases "k = mode")
              case True
              with q k at w show ?thesis by simp
            next
              case ne: False
              with False q k show ?thesis by simp
            qed
          qed
        qed
        with p f show "nmodes d' = nmodes d \<and> sortkey d' = sortkey d \<and> ndims d' = ndims d \<and>
            nnz d' = nnz d \<and> vals d' = vals d \<and> length (inds d') = nmodes t \<and>
            list_all vec_inv (inds d') \<and>
            (\<forall>k<nmodes t.
               if k < mode then inds d' ! k = inds d ! k
               else vec_list (inds d' ! k) = take (hi - lo) (drop lo (vec_list (inds t ! k))))"
          by simp
      qed
      from p1 p2 p3 show ?thesis by blast
    qed
  qed
qed

lemma new_inds_spec:
  shows "new_inds alloc n = Inr vs \<Longrightarrow> length vs = n \<and> list_all vec_inv vs"
    and "granted alloc \<Longrightarrow> \<exists>vs. new_inds alloc n = Inr vs"
proof -
  have g: "\<And>v. sptNewSizeVector alloc 0 0 = Inr v \<Longrightarrow> vec_inv v"
    by (auto simp: sptNewSizeVector_def malloc_cells_def vec_inv_def split: if_splits)
  show "new_inds alloc n = Inr vs \<Longrightarrow> length vs = n \<and> list_all vec_inv vs"
    by (induction n arbitrary: vs) (auto split: sum.splits dest: g)
  show "granted alloc \<Longrightarrow> \<exists>vs. new_inds alloc n = Inr vs"
    by (induction n) (fastforce simp: sptNewSizeVector_def malloc_cells_def granted_def)+
qed

lemma sptNewSparseTensor_spec:
  shows "sptNewSparseTensor alloc sk n ds = Inr (d::('v::zero) sptSparseTensor) \<Longrightarrow>
           nmodes d = n \<and> sortkey d = sk \<and> ndims d = take n ds \<and> nnz d = 0 \<and>
           length (inds d) = n \<and> list_all vec_inv (inds d) \<and> vec_inv (vals d)"
    and "granted alloc \<Longrightarrow> \<exists>d::('v::zero) sptSparseTensor. sptNewSparseTensor alloc sk n ds = Inr d"
proof -
  have g: "\<And>v::'v sptVector. sptNewVector alloc 0 0 = Inr v \<Longrightarrow> vec_inv v"
    by (auto simp: sptNewVector_def malloc_cells_def vec_inv_def split: if_splits)
  show "sptNewSparseTensor alloc sk n ds = Inr d \<Longrightarrow>
           nmodes d = n \<and> sortkey d = sk \<and> ndims d = take n ds \<and> nnz d = 0 \<and>
           length (inds d) = n \<and> list_all vec_inv (inds d) \<and> vec_inv (vals d)"
    by (auto simp: sptNewSparseTensor_def split: if_splits sum.splits
             dest: new_inds_spec(1) g)
  show "granted alloc \<Longrightarrow> \<exists>d::'v sptSparseTensor. sptNewSparseTensor alloc sk n ds = Inr d"
    using new_inds_spec(2)[of alloc n]
    by (auto simp: sptNewSparseTensor_def sptNewVector_def malloc_cells_def granted_def)
qed

lemma materialize_spec:
  assumes wf: "wf_tensor t" and b: "lo \<le> hi" "hi \<le> nnz t"
  shows "materialize alloc sk t lo hi = Inl e \<Longrightarrow> e = SPTERR_OS_ERROR"
    and "materialize alloc sk t lo hi = Inr d \<Longrightarrow>
           is_slice t lo hi d \<and> sortkey d = sk \<and> wf_tensor d"
    and "granted alloc \<Longrightarrow> \<exists>d. materialize alloc sk t lo hi = Inr d"
proof -
  have ss: "size_sub hi lo = hi - lo" using b by (simp add: size_sub_def)
  have srcv: "len (vals t) = nnz t" "nnz t \<le> length (data (vals t))"
    and nd: "length (ndims t) = nmodes t" and li: "length (inds t) = nmodes t"
    using wf by (simp_all add: wf_tensor_def)
  have "hi \<le> length (data (vals t))" using b srcv by simp
  note fin0 = resize_then_copy[OF _ b(1) this]
  have fin: "\<And>v. vec_inv v \<Longrightarrow>
     ((\<forall>e. sptResizeVector alloc v (hi - lo) = Inl e \<longrightarrow> e = SPTERR_OS_ERROR) \<and>
      (\<forall>w. sptResizeVector alloc v (hi - lo) = Inr w \<longrightarrow>
         (\<exists>dd. memcpy_cells (data w) (data (vals t)) lo (hi - lo) = Inr dd \<and>
              vec_inv (w\<lparr>data := dd\<rparr>) \<and> len (w\<lparr>data := dd\<rparr>) = hi - lo \<and>
              vec_list (w\<lparr>data := dd\<rparr>) = take (hi - lo) (drop lo (vec_list (vals t))))))"
    using fin0 slice_of_vec_list[of lo hi "vals t"] b srcv by simp
  show "materialize alloc sk t lo hi = Inl e \<Longrightarrow> e = SPTERR_OS_ERROR"
  proof -
    assume a: "materialize alloc sk t lo hi = Inl e"
    show ?thesis
    proof (cases "sptNewSparseTensor alloc sk (nmodes t) (ndims t) :: error + 'a sptSparseTensor")
      case (Inl e0)
      with a show ?thesis by (auto simp: materialize_def dest: sptNewSparseTensor_error)
    next
      case (Inr d0)
      note n0 = sptNewSparseTensor_spec(1)[OF Inr]
      from n0 have l0: "length (inds d0) = nmodes t" and v0: "list_all vec_inv (inds d0)"
        by simp_all
      note ci = copy_inds_spec[OF wf b l0 v0, of alloc 0]
      show ?thesis
      proof (cases "copy_inds alloc t d0 lo hi 0")
        case (Inl e1)
        with a Inr ci show ?thesis by (auto simp: materialize_def)
      next
        case r1: (Inr d1)
        with ci n0 have "vec_inv (vals d1)" by simp
        from fin[OF this] a Inr r1 show ?thesis
          by (auto simp: materialize_def ss split: sum.splits)
      qed
    qed
  qed
  show "materialize alloc sk t lo hi = Inr d \<Longrightarrow>
           is_slice t lo hi d \<and> sortkey d = sk \<and> wf_tensor d"
  proof -
    assume a: "materialize alloc sk t lo hi = Inr d"
    then obtain d0 d1 w dd where
      r0: "sptNewSparseTensor alloc sk (nmodes t) (ndims t) = Inr d0"
      and r1: "copy_inds alloc t d0 lo hi 0 = Inr d1"
      and r2: "sptResizeVector alloc (vals d1) (hi - lo) = Inr w"
      and r3: "memcpy_cells (data w) (data (vals t)) lo (hi - lo) = Inr dd"
      and dv: "d = d1\<lparr>vals := w\<lparr>data := dd\<rparr>, nnz := hi - lo\<rparr>"
      by (auto simp: materialize_def ss split: sum.splits)
    note n0 = sptNewSparseTensor_spec(1)[OF r0]
    from n0 have l0: "length (inds d0) = nmodes t" and v0: "list_all vec_inv (inds d0)"
      by simp_all
    from copy_inds_spec[OF wf b l0 v0, of alloc 0] r1 n0
    have p: "nmodes d1 = nmodes t" "sortkey d1 = sk" "ndims d1 = take (nmodes t) (ndims t)"
      "vals d1 = vals d0" "length (inds d1) = nmodes t" "list_all vec_inv (inds d1)"
      and q: "\<forall>k<nmodes t.
         vec_list (inds d1 ! k) = take (hi - lo) (drop lo (vec_list (inds t ! k)))"
      by simp_all
    have vv: "vec_inv (vals d1)" using p n0 by simp
    from fin[OF vv] r2 r3 have vd: "vec_inv (w\<lparr>data := dd\<rparr>)" "len (w\<lparr>data := dd\<rparr>) = hi - lo"
      "vec_list (w\<lparr>data := dd\<rparr>) = take (hi - lo) (drop lo (vec_list (vals t)))"
      by auto
    have mp: "map vec_list (inds d1)
                = map (\<lambda>v. take (hi - lo) (drop lo (vec_list v))) (inds t)"
      using p(5) li q by (simp add: list_eq_iff_nth_eq)
    have sl: "is_slice t lo hi d"
      unfolding is_slice_def using p nd mp vd by (simp add: dv)
    have lens: "list_all (\<lambda>v. len v = hi - lo \<and> hi - lo \<le> length (data v)) (inds d1)"
      unfolding list_all_length
    proof (intro allI impI)
      fix k assume k: "k < length (inds d1)"
      with p have v: "vec_inv (inds d1 ! k)" by (simp add: list_all_length)
      have "length (vec_list (inds d1 ! k)) = hi - lo"
        using q k p(5) wf b by (simp add: wf_tensor_def list_all_length vec_list_def)
      with v show "len (inds d1 ! k) = hi - lo \<and> hi - lo \<le> length (data (inds d1 ! k))"
        by (simp add: vec_list_length vec_inv_def)
    qed
    have "wf_tensor d"
      unfolding wf_tensor_def using p nd lens vd(1,2)
      by (simp add: dv vec_inv_def)
    with sl p show ?thesis by (simp add: dv)
  qed
  show "granted alloc \<Longrightarrow> \<exists>d. materialize alloc sk t lo hi = Inr d"
  proof -
    assume g: "granted alloc"
    from sptNewSparseTensor_spec(2)[OF g, of sk "nmodes t" "ndims t"] obtain d0 :: "'a sptSparseTensor"
      where r0: "sptNewSparseTensor alloc sk (nmodes t) (ndims t) = Inr d0" by auto
    note n0 = sptNewSparseTensor_spec(1)[OF r0]
    from n0 have l0: "length (inds d0) = nmodes t" and v0: "list_all vec_inv (inds d0)"
      by simp_all
    note ci = copy_inds_spec[OF wf b l0 v0, of alloc 0]
    from ci g obtain d1 where r1: "copy_inds alloc t d0 lo hi 0 = Inr d1" by auto
    with ci n0 have vv: "vec_inv (vals d1)" by simp
    from sptResizeVector_spec(2)[OF vv g, of "hi - lo"] obtain w where
      r2: "sptResizeVector alloc (vals d1) (hi - lo) = Inr w" by auto
    from fin[OF vv] r2 obtain dd where
      "memcpy_cells (data w) (data (vals t)) lo (hi - lo) = Inr dd" by auto
    with r0 r1 r2 show ?thesis by (simp add: materialize_def ss)
  qed
qed

section \<open>One call of produce\<close>

lemma split_body_spec:
  assumes inv: "status_inv t st" and wf: "wf_tensor t"
  shows "\<exists>st' r. split_body alloc sk t st = (st', r) \<and> status_inv t st' \<and> tsr st' = tsr st \<and>
     (case r of
        Inl e \<Rightarrow> e = SPTERR_OS_ERROR \<and> \<not> granted alloc \<and> no_more st' = no_more st \<and>
                  last (vec_list (partial_low st')) = last (vec_list (partial_low st))
      | Inr c \<Rightarrow>
          cut_low c = last (vec_list (partial_low st)) \<and> cut_low c < cut_high c \<and>
          cut_high c \<le> nnz t \<and> is_slice t (cut_low c) (cut_high c) (dest c) \<and>
          sortkey (dest c) = sk \<and> wf_tensor (dest c) \<and>
          ((no_more st' = no_more st \<and> last (vec_list (partial_low st')) = cut_high c \<and>
            cut_high c < nnz t) \<or>
           (no_more st' = 1 \<and> cut_high c = nnz t)))"
proof -
  note ln = status_inv_lengths[OF inv]
  from inv have ub: "len (partial_high st) \<le> nmodes t + 1" by (simp add: status_inv_def)
  define mode where "mode = size_sub (len (partial_low st)) 1"
  have m1: "len (partial_low st) = mode + 1" and m2: "mode \<le> nmodes t"
    using ln ub by (simp_all add: mode_def size_sub_def)
  from descend_inv[OF inv m1 m2, of alloc] obtain st1 where
    d: "descend alloc t st mode = (st1, None)" and i1: "status_inv t st1"
    and l1: "len (partial_low st1) = nmodes t + 1"
    and k1: "last (vec_list (partial_low st1)) = last (vec_list (partial_low st))"
      "tsr st1 = tsr st" "no_more st1 = no_more st"
    by auto
  note ln1 = status_inv_lengths[OF i1]
  from i1 have rg: "list_all2 (<) (vec_list (partial_low st1)) (vec_list (partial_high st1))"
    by (simp add: status_inv_def)
  define lo where "lo = data (partial_low st1) ! nmodes t"
  define hi where "hi = data (partial_high st1) ! nmodes t"
  have lh1: "len (partial_high st1) = nmodes t + 1" using ln1 l1 by simp
  have lo_last: "lo = last (vec_list (partial_low st1))"
    using ln1 l1 lh1 by (simp add: lo_def last_conv_nth vec_list_nth length_greater_0_conv[symmetric] del: length_greater_0_conv)
  have hi_last: "hi = last (vec_list (partial_high st1))"
    using ln1 lh1 by (simp add: hi_def last_conv_nth vec_list_nth length_greater_0_conv[symmetric] del: length_greater_0_conv)
  have lt: "lo < hi"
    using list_all2_nthD[OF rg, of "nmodes t"] ln1 l1 lh1
    by (simp add: lo_def hi_def vec_list_nth)
  have le: "hi \<le> nnz t"
    using status_inv_high_le[OF i1, of "nmodes t"] lh1 by (simp add: hi_def vec_list_nth)
  from lt have lle: "lo \<le> hi" by simp
  note ms = materialize_spec[OF wf lle le]
  have unf: "split_body alloc sk t st =
     (case materialize alloc sk t lo hi of
        Inl e \<Rightarrow> (st1, Inl e)
      | Inr dd \<Rightarrow>
          (case backtrack t st1 (nmodes t) of
             (st2, Some e) \<Rightarrow> (st2, Inl e)
           | (st2, None) \<Rightarrow> (st2, Inr \<lparr>cut_low = lo, cut_high = hi, dest = dd\<rparr>)))"
    unfolding split_body_def Let_def mode_def[symmetric] d lo_def hi_def by simp
  show ?thesis
  proof (cases "materialize alloc sk t lo hi")
    case (Inl e)
    from ms(1)[OF Inl] have "e = SPTERR_OS_ERROR" .
    moreover have "\<not> granted alloc"
      using ms(3)[of alloc sk] Inl by auto
    ultimately show ?thesis
      using i1 k1 by (simp add: unf Inl)
  next
    case (Inr dd)
    from ms(2)[OF Inr] have sl: "is_slice t lo hi dd" "sortkey dd = sk" "wf_tensor dd"
      by simp_all
    from backtrack_inv[OF i1 lh1] obtain st2 where
      bt: "backtrack t st1 (nmodes t) = (st2, None)" and i2: "status_inv t st2"
      and t2: "tsr st2 = tsr st1"
      and alt: "(no_more st2 = no_more st1 \<and>
             last (vec_list (partial_low st2)) = last (vec_list (partial_high st1)) \<and>
             last (vec_list (partial_high st1)) < nnz t) \<or>
            (no_more st2 = 1 \<and> last (vec_list (partial_high st1)) = nnz t)"
      by auto
    have "split_body alloc sk t st = (st2, Inr \<lparr>cut_low = lo, cut_high = hi, dest = dd\<rparr>)"
      by (simp add: unf Inr bt)
    then show ?thesis
      using i2 t2 k1 sl lt le alt lo_last hi_last by auto
  qed
qed

lemma split_spec:
  assumes e: "engine_inv a t m status st" and wf: "wf_tensor t" and f: "no_more st = 0"
  shows "\<exists>st' r. spt_SplitSparseTensor alloc sk m status
                    = (m\<lparr>statuses := (statuses m)(status \<mapsto> st')\<rparr>, r) \<and>
           engine_inv a t (m\<lparr>statuses := (statuses m)(status \<mapsto> st')\<rparr>) status st' \<and>
     (case r of
        Inl e \<Rightarrow> e = SPTERR_OS_ERROR \<and> \<not> granted alloc \<and> no_more st' = 0 \<and>
                  last (vec_list (partial_low st')) = last (vec_list (partial_low st))
      | Inr c \<Rightarrow>
          cut_low c = last (vec_list (partial_low st)) \<and> cut_low c < cut_high c \<and>
          cut_high c \<le> nnz t \<and> is_slice t (cut_low c) (cut_high c) (dest c) \<and>
          sortkey (dest c) = sk \<and> wf_tensor (dest c) \<and>
          ((no_more st' = 0 \<and> last (vec_list (partial_low st')) = cut_high c \<and>
            cut_high c < nnz t) \<or>
           (no_more st' = 1 \<and> cut_high c = nnz t)))"
proof -
  from e have m: "tensors m a = Some t" "statuses m status = Some st" "tsr st = Some a"
    and inv: "status_inv t st"
    by (simp_all add: engine_inv_def)
  from split_body_spec[OF inv wf, of alloc sk] obtain st' r where
    sb: "split_body alloc sk t st = (st', r)" and i': "status_inv t st'"
    and t': "tsr st' = tsr st"
    and c: "case r of
        Inl e \<Rightarrow> e = SPTERR_OS_ERROR \<and> \<not> granted alloc \<and> no_more st' = no_more st \<and>
                  last (vec_list (partial_low st')) = last (vec_list (partial_low st))
      | Inr c \<Rightarrow>
          cut_low c = last (vec_list (partial_low st)) \<and> cut_low c < cut_high c \<and>
          cut_high c \<le> nnz t \<and> is_slice t (cut_low c) (cut_high c) (dest c) \<and>
          sortkey (dest c) = sk \<and> wf_tensor (dest c) \<and>
          ((no_more st' = no_more st \<and> last (vec_list (partial_low st')) = cut_high c \<and>
            cut_high c < nnz t) \<or>
           (no_more st' = 1 \<and> cut_high c = nnz t))"
    by blast
  have "spt_SplitSparseTensor alloc sk m status
          = (m\<lparr>statuses := (statuses m)(status \<mapsto> st')\<rparr>, r)"
    using m f sb by (simp add: spt_SplitSparseTensor_def)
  moreover have "engine_inv a t (m\<lparr>statuses := (statuses m)(status \<mapsto> st')\<rparr>) status st'"
    using m i' t' by (simp add: engine_inv_def)
  ultimately show ?thesis
    using c f by (cases r) auto
qed

lemma split_keeps_engine_inv:
  assumes e: "engine_inv a t m status st" and wf: "wf_tensor t"
    and r: "spt_SplitSparseTensor alloc sk m status = (m', r)"
  shows "\<exists>st'. engine_inv a t m' status st'"
proof (cases "no_more st = 0")
  case True
  from split_spec[OF e wf True, of alloc sk] r show ?thesis by auto
next
  case False
  from e have "statuses m status = Some st" by (simp add: engine_inv_def)
  from split_flagged[OF this False, of alloc sk] r e show ?thesis by auto
qed

section \<open>Driving to exhaustion\<close>

lemma chunk_range_sel:
  "fst (chunk_range c) = cut_low c" "snd (chunk_range c) = cut_high c"
  by (simp_all add: chunk_range_def)

lemma drive_spec:
  assumes wf: "wf_tensor t" and g: "granted alloc"
  shows "engine_inv a t m status st \<Longrightarrow> no_more st = 0 \<Longrightarrow>
         nnz t - last (vec_list (partial_low st)) < fuel \<Longrightarrow>
         \<exists>cs. drive fuel alloc sk m status = Some (Inr cs) \<and>
              consecutive (last (vec_list (partial_low st))) (nnz t) (map chunk_range cs)"
proof (induction fuel arbitrary: m st)
  case 0
  then show ?case by simp
next
  case (Suc n)
  from split_spec[OF Suc.prems(1) wf Suc.prems(2), of alloc sk] obtain st' r where
    sp0: "spt_SplitSparseTensor alloc sk m status
           = (m\<lparr>statuses := (statuses m)(status \<mapsto> st')\<rparr>, r)"
    and e': "engine_inv a t (m\<lparr>statuses := (statuses m)(status \<mapsto> st')\<rparr>) status st'"
    and cr: "case r of
        Inl e \<Rightarrow> e = SPTERR_OS_ERROR \<and> \<not> granted alloc \<and> no_more st' = 0 \<and>
                  last (vec_list (partial_low st')) = last (vec_list (partial_low st))
      | Inr c \<Rightarrow>
          cut_low c = last (vec_list (partial_low st)) \<and> cut_low c < cut_high c \<and>
          cut_high c \<le> nnz t \<and> is_slice t (cut_low c) (cut_high c) (dest c) \<and>
          sortkey (dest c) = sk \<and> wf_tensor (dest c) \<and>
          ((no_more st' = 0 \<and> last (vec_list (partial_low st')) = cut_high c \<and>
            cut_high c < nnz t) \<or>
           (no_more st' = 1 \<and> cut_high c = nnz t))"
    by blast
  from cr g obtain c where rc: "r = Inr c" by (cases r) auto
  from cr rc have lo: "cut_low c = last (vec_list (partial_low st))"
    and lt: "cut_low c < cut_high c" and le: "cut_high c \<le> nnz t"
    and alt: "(no_more st' = 0 \<and> last (vec_list (partial_low st')) = cut_high c \<and>
            cut_high c < nnz t) \<or>
           (no_more st' = 1 \<and> cut_high c = nnz t)"
    by simp_all
  note sp = sp0[unfolded rc]
  define m' where "m' = m\<lparr>statuses := (statuses m)(status \<mapsto> st')\<rparr>"
  from alt show ?case
  proof
    assume a: "no_more st' = 0 \<and> last (vec_list (partial_low st')) = cut_high c \<and>
            cut_high c < nnz t"
    then have "nnz t - last (vec_list (partial_low st')) < n"
      using Suc.prems(3) lo lt by (elim conjE) arith
    from Suc.IH[OF e' _ this] a obtain cs where
      "drive n alloc sk (m\<lparr>statuses := (statuses m)(status \<mapsto> st')\<rparr>) status = Some (Inr cs)"
      "consecutive (cut_high c) (nnz t) (map chunk_range cs)"
      by auto
    then show ?thesis
      using sp lo lt by (simp add: chunk_range_sel)
  next
    assume a: "no_more st' = 1 \<and> cut_high c = nnz t"
    from Suc.prems(3) lo lt le obtain k where k: "n = Suc k"
      by (cases n) auto
    from e' have "statuses (m\<lparr>statuses := (statuses m)(status \<mapsto> st')\<rparr>) status = Some st'"
      by (simp add: engine_inv_def)
    from split_flagged[OF this, of alloc sk] a
    have "drive n alloc sk (m\<lparr>statuses := (statuses m)(status \<mapsto> st')\<rparr>) status = Some (Inr [])"
      by (simp add: k)
    then show ?thesis
      using sp lo lt a by (simp add: chunk_range_sel)
  qed
qed

lemma consecutive_nth:
  "consecutive a b rs \<Longrightarrow> rs \<noteq> [] \<Longrightarrow>
   fst (hd rs) = a \<and> snd (last rs) = b \<and>
   (\<forall>i. Suc i < length rs \<longrightarrow> fst (rs ! Suc i) = snd (rs ! i)) \<and>
   (\<forall>r\<in>set rs. fst r < snd r)"
proof (induction rs arbitrary: a)
  case Nil
  then show ?case by simp
next
  case (Cons r rs)
  show ?case
  proof (cases rs)
    case Nil
    with Cons.prems show ?thesis by simp
  next
    case (Cons r' rs')
    with Cons.IH[of "snd r"] Cons.prems
    have ih: "fst (hd rs) = snd r" "snd (last rs) = b"
      "\<forall>i. Suc i < length rs \<longrightarrow> fst (rs ! Suc i) = snd (rs ! i)"
      "\<forall>x\<in>set rs. fst x < snd x"
      by simp_all
    have "\<forall>i. Suc i < length (r # rs) \<longrightarrow> fst ((r # rs) ! Suc i) = snd ((r # rs) ! i)"
    proof (intro allI impI)
      fix i assume "Suc i < length (r # rs)"
      with ih(1,3) Cons show "fst ((r # rs) ! Suc i) = snd ((r # rs) ! i)"
        by (cases i) (simp_all add: hd_conv_nth)
    qed
    with ih Cons Cons.prems show ?thesis by simp
  qed
qed

text \<open>
  C1. For a well-formed tensor with \<open>nnz > 0\<close> whose sort-key marker is \<open>nmodes - 1\<close> and
  \<open>nmodes\<close> positive cut counts, with every allocation granted: start and then produce
  until \<^verbatim>\<open>SPTERR_NO_MORE\<close> ends within \<open>nnz + 1\<close> calls of produce and yields a
  non-empty list of chunks whose ranges are consecutive and in increasing order. The
  first range starts at 0, each next one starts where the one before it ended, the last
  ends at \<open>nnz\<close>, and no range is empty.
\<close>

theorem chunks_cover_in_order:
  assumes "tensors m a = Some t" and "wf_tensor t" and "0 < nnz t"
    and "sortkey t = size_sub (nmodes t) 1"
    and "length cuts = nmodes t" and "list_all (\<lambda>c. 0 < c) cuts"
    and "granted alloc" and "nnz t < fuel"
  shows "\<exists>cs. split_all fuel alloc sk m a cuts = Some (Inr cs) \<and> cs \<noteq> [] \<and>
           consecutive 0 (nnz t) (map chunk_range cs) \<and>
           cut_low (hd cs) = 0 \<and> cut_high (last cs) = nnz t \<and>
           (\<forall>i. Suc i < length cs \<longrightarrow> cut_low (cs ! Suc i) = cut_high (cs ! i)) \<and>
           (\<forall>c\<in>set cs. cut_low c < cut_high c)"
proof -
  from start_success[OF assms(1) _ assms(4) _ assms(7), of cuts] assms(3,5)
  obtain m1 status where
    s: "spt_StartSplitSparseTensor alloc m a cuts = Inr (m1, status)"
    by auto
  from start_engine_inv[OF assms(1,5,6) s] obtain st where
    e: "engine_inv a t m1 status st" and f: "no_more st = 0"
    and z: "vec_list (partial_low st) = [0]"
    by auto
  from drive_spec[OF assms(2,7) e f, of fuel sk] z assms(8) obtain cs where
    d: "drive fuel alloc sk m1 status = Some (Inr cs)"
    and c: "consecutive 0 (nnz t) (map chunk_range cs)"
    by auto
  from c assms(3) have ne: "cs \<noteq> []" by auto
  from consecutive_nth[OF c] ne
  have "fst (hd (map chunk_range cs)) = 0" "snd (last (map chunk_range cs)) = nnz t"
    "\<forall>i. Suc i < length cs \<longrightarrow>
        fst (map chunk_range cs ! Suc i) = snd (map chunk_range cs ! i)"
    "\<forall>r\<in>set (map chunk_range cs). fst r < snd r"
    by simp_all
  with ne have "cut_low (hd cs) = 0" "cut_high (last cs) = nnz t"
    "\<forall>i. Suc i < length cs \<longrightarrow> cut_low (cs ! Suc i) = cut_high (cs ! i)"
    "\<forall>c\<in>set cs. cut_low c < cut_high c"
    by (simp_all add: hd_map last_map chunk_range_sel)
  with s d c ne show ?thesis by (simp add: split_all_def)
qed

theorem chunks_cover_in_order_witness:
  "\<exists>cs. split_all 7 (\<lambda>_. True) 1
           (one_tensor (scenario_a [3, 2] [1, 2, 3, 4, 5, 6::int])) 0 [3, 1] = Some (Inr cs) \<and>
        cs \<noteq> [] \<and> consecutive 0 6 (map chunk_range cs) \<and>
        cut_low (hd cs) = 0 \<and> cut_high (last cs) = 6"
proof -
  have "tensors (one_tensor (scenario_a [3, 2] [1, 2, 3, 4, 5, 6::int])) 0
          = Some (scenario_a [3, 2] [1, 2, 3, 4, 5, 6::int])"
    by (simp add: one_tensor_def)
  moreover have "wf_tensor (scenario_a [3, 2] [1, 2, 3, 4, 5, 6::int])"
    by (simp add: wf_tensor_def scenario_a_def)
  moreover have "0 < nnz (scenario_a [3, 2] [1, 2, 3, 4, 5, 6::int])"
    "sortkey (scenario_a [3, 2] [1, 2, 3, 4, 5, 6::int])
       = size_sub (nmodes (scenario_a [3, 2] [1, 2, 3, 4, 5, 6::int])) 1"
    "length [3, 1::nat] = nmodes (scenario_a [3, 2] [1, 2, 3, 4, 5, 6::int])"
    "nnz (scenario_a [3, 2] [1, 2, 3, 4, 5, 6::int]) < 7"
    by (simp_all add: scenario_a_def size_sub_def)
  moreover have "list_all (\<lambda>c. 0 < c) [3, 1::nat]" "granted (\<lambda>_. True)"
    by (simp_all add: granted_def)
  ultimately show ?thesis
    using chunks_cover_in_order[of "one_tensor (scenario_a [3, 2] [1, 2, 3, 4, 5, 6::int])" 0
        "scenario_a [3, 2] [1, 2, 3, 4, 5, 6::int]" "[3, 1]" "\<lambda>_. True" 7 1]
    by (auto simp: scenario_a_def)
qed

section \<open>Every reachable status\<close>

lemma reachable_engine_inv:
  assumes t: "tensors m0 a = Some t" and wf: "wf_tensor t" and l: "length cuts = nmodes t"
    and p: "list_all (\<lambda>c. 0 < c) cuts"
  shows "reachable alloc sk m0 a cuts m status \<Longrightarrow> \<exists>st. engine_inv a t m status st"
proof (induction rule: reachable.induct)
  case (started m status)
  from start_engine_inv[OF t l p started] show ?case by auto
next
  case (produced m status m' r)
  then obtain st where "engine_inv a t m status st" by auto
  from split_keeps_engine_inv[OF this wf produced.hyps(2)] show ?case .
qed

lemma split_granted:
  assumes e: "engine_inv a t m status st" and wf: "wf_tensor t" and f: "no_more st = 0"
    and g: "granted alloc"
  shows "\<exists>m' c. spt_SplitSparseTensor alloc sk m status = (m', Inr c)"
proof -
  from split_spec[OF e wf f, of alloc sk] obtain st' r where
    sp: "spt_SplitSparseTensor alloc sk m status
           = (m\<lparr>statuses := (statuses m)(status \<mapsto> st')\<rparr>, r)"
    and cr: "case r of
        Inl e \<Rightarrow> e = SPTERR_OS_ERROR \<and> \<not> granted alloc \<and> no_more st' = 0 \<and>
                  last (vec_list (partial_low st')) = last (vec_list (partial_low st))
      | Inr c \<Rightarrow>
          cut_low c = last (vec_list (partial_low st)) \<and> cut_low c < cut_high c \<and>
          cut_high c \<le> nnz t \<and> is_slice t (cut_low c) (cut_high c) (dest c) \<and>
          sortkey (dest c) = sk \<and> wf_tensor (dest c) \<and>
          ((no_more st' = 0 \<and> last (vec_list (partial_low st')) = cut_high c \<and>
            cut_high c < nnz t) \<or>
           (no_more st' = 1 \<and> cut_high c = nnz t))"
    by blast
  from cr g obtain c where "r = Inr c" by (cases r) auto
  with sp show ?thesis by blast
qed

text \<open>
  C10. In every store and handle reachable from a successful start by calls of produce
  (whatever they returned), on a well-formed tensor with positive cut counts: the handle
  refers to a status, every level of its range stack has \<open>low < high\<close>, the next call of
  produce (with any allocation oracle) does not fail its assertion, and a chunk it
  returns has a non-empty range and at least one nonzero.
\<close>

theorem reachable_levels_nonempty:
  assumes "tensors m0 a = Some t" and "wf_tensor t" and "length cuts = nmodes t"
    and "list_all (\<lambda>c. 0 < c) cuts"
    and "reachable alloc sk m0 a cuts m status"
  shows "\<exists>st. statuses m status = Some st \<and>
           (\<forall>k<len (partial_low st). data (partial_low st) ! k < data (partial_high st) ! k) \<and>
           snd (spt_SplitSparseTensor alloc' sk' m status) \<noteq> Inl AssertionFailed \<and>
           (\<forall>c. snd (spt_SplitSparseTensor alloc' sk' m status) = Inr c \<longrightarrow>
                  cut_low c < cut_high c \<and> 1 \<le> nnz (dest c))"
proof -
  from reachable_engine_inv[OF assms] obtain st where e: "engine_inv a t m status st"
    by auto
  then have s: "statuses m status = Some st" and inv: "status_inv t st"
    by (simp_all add: engine_inv_def)
  note ln = status_inv_lengths[OF inv]
  from inv have rg: "list_all2 (<) (vec_list (partial_low st)) (vec_list (partial_high st))"
    by (simp add: status_inv_def)
  have lv: "\<forall>k<len (partial_low st). data (partial_low st) ! k < data (partial_high st) ! k"
  proof (intro allI impI)
    fix k assume k: "k < len (partial_low st)"
    with list_all2_nthD[OF rg, of k] ln
    show "data (partial_low st) ! k < data (partial_high st) ! k"
      by (simp add: vec_list_nth)
  qed
  have res: "snd (spt_SplitSparseTensor alloc' sk' m status) \<noteq> Inl AssertionFailed \<and>
           (\<forall>c. snd (spt_SplitSparseTensor alloc' sk' m status) = Inr c \<longrightarrow>
                  cut_low c < cut_high c \<and> 1 \<le> nnz (dest c))"
  proof (cases "no_more st = 0")
    case False
    from split_flagged[OF s False, of alloc' sk'] show ?thesis by simp
  next
    case True
    from split_spec[OF e assms(2) True, of alloc' sk'] obtain st' r where
      sp: "spt_SplitSparseTensor alloc' sk' m status
             = (m\<lparr>statuses := (statuses m)(status \<mapsto> st')\<rparr>, r)"
      and cr: "case r of
          Inl e \<Rightarrow> e = SPTERR_OS_ERROR \<and> \<not> granted alloc' \<and> no_more st' = 0 \<and>
                    last (vec_list (partial_low st')) = last (vec_list (partial_low st))
        | Inr c \<Rightarrow>
            cut_low c = last (vec_list (partial_low st)) \<and> cut_low c < cut_high c \<and>
            cut_high c \<le> nnz t \<and> is_slice t (cut_low c) (cut_high c) (dest c) \<and>
            sortkey (dest c) = sk' \<and> wf_tensor (dest c) \<and>
            ((no_more st' = 0 \<and> last (vec_list (partial_low st')) = cut_high c \<and>
              cut_high c < nnz t) \<or>
             (no_more st' = 1 \<and> cut_high c = nnz t))"
      by blast
    show ?thesis
    proof (cases r)
      case (Inl e)
      with sp cr show ?thesis by simp
    next
      case (Inr c)
      with cr have "cut_low c < cut_high c" "is_slice t (cut_low c) (cut_high c) (dest c)"
        by auto
      then have "cut_low c < cut_high c \<and> 1 \<le> nnz (dest c)"
        by (simp add: is_slice_def)
      with sp Inr show ?thesis by simp
    qed
  qed
  from s lv res show ?thesis by blast
qed

theorem reachable_levels_nonempty_witness:
  "\<exists>m status st.
     spt_StartSplitSparseTensor (\<lambda>_. True)
        (one_tensor (scenario_a [3, 2] [1, 2, 3, 4, 5, 6::int])) 0 [3, 1] = Inr (m, status) \<and>
     statuses m status = Some st \<and>
     data (partial_low st) ! 0 < data (partial_high st) ! 0 \<and>
     snd (spt_SplitSparseTensor (\<lambda>_. True) 1 m status) \<noteq> Inl AssertionFailed"
proof -
  have t: "tensors (one_tensor (scenario_a [3, 2] [1, 2, 3, 4, 5, 6::int])) 0
          = Some (scenario_a [3, 2] [1, 2, 3, 4, 5, 6::int])"
    by (simp add: one_tensor_def)
  have wf: "wf_tensor (scenario_a [3, 2] [1, 2, 3, 4, 5, 6::int])"
    by (simp add: wf_tensor_def scenario_a_def)
  have n: "nnz (scenario_a [3, 2] [1, 2, 3, 4, 5, 6::int]) \<noteq> 0"
    "sortkey (scenario_a [3, 2] [1, 2, 3, 4, 5, 6::int])
       = size_sub (nmodes (scenario_a [3, 2] [1, 2, 3, 4, 5, 6::int])) 1"
    by (simp_all add: scenario_a_def size_sub_def)
  have l: "length [3, 1::nat] = nmodes (scenario_a [3, 2] [1, 2, 3, 4, 5, 6::int])"
    "nmodes (scenario_a [3, 2] [1, 2, 3, 4, 5, 6::int]) \<le> length [3, 1::nat]"
    by (simp_all add: scenario_a_def)
  have p: "list_all (\<lambda>c. 0 < c) [3, 1::nat]" and g: "granted (\<lambda>_. True)"
    by (simp_all add: granted_def)
  from start_success[OF t n l(2) g] obtain m status st0 where
    s: "spt_StartSplitSparseTensor (\<lambda>_. True)
          (one_tensor (scenario_a [3, 2] [1, 2, 3, 4, 5, 6::int])) 0 [3, 1] = Inr (m, status)"
    and s0: "statuses m status = Some st0" "vec_list (partial_low st0) = [0]"
    by auto
  have r: "reachable (\<lambda>_. True) 1 (one_tensor (scenario_a [3, 2] [1, 2, 3, 4, 5, 6::int])) 0
             [3, 1] m status"
    using s by (rule reachable.started)
  from reachable_levels_nonempty[OF t wf l(1) p r, of "\<lambda>_. True" 1] obtain st where
    st: "statuses m status = Some st"
    "\<forall>k<len (partial_low st). data (partial_low st) ! k < data (partial_high st) ! k"
    "snd (spt_SplitSparseTensor (\<lambda>_. True) 1 m status) \<noteq> Inl AssertionFailed"
    by blast
  from st(1) s0 have "0 < len (partial_low st)"
    by (cases "len (partial_low st)") (auto simp: vec_list_def)
  with st s show ?thesis by blast
qed

section \<open>The chunk is the slice\<close>

lemma tensor_rows_slice:
  assumes wt: "wf_tensor t" and wd: "wf_tensor d" and sl: "is_slice t lo hi d"
    and b: "lo \<le> hi" "hi \<le> nnz t"
  shows "tensor_rows d = take (hi - lo) (drop lo (tensor_rows t))"
proof -
  from sl have n: "nnz d = hi - lo"
    and mp: "map vec_list (inds d) = map (\<lambda>v. take (hi - lo) (drop lo (vec_list v))) (inds t)"
    by (simp_all add: is_slice_def)
  from mp have le: "length (inds d) = length (inds t)"
    using map_eq_imp_length_eq by blast
  have row: "map (\<lambda>v. data v ! i) (inds d) = map (\<lambda>v. data v ! (lo + i)) (inds t)"
    if i: "i < hi - lo" for i
  proof (rule nth_equalityI)
    show "length (map (\<lambda>v. data v ! i) (inds d)) = length (map (\<lambda>v. data v ! (lo + i)) (inds t))"
      using le by simp
  next
    fix k assume "k < length (map (\<lambda>v. data v ! i) (inds d))"
    then have k: "k < length (inds d)" by simp
    have ld: "len (inds d ! k) = hi - lo"
      using wd k n by (simp add: wf_tensor_def list_all_length)
    have lt: "len (inds t ! k) = nnz t"
      using wt k le by (simp add: wf_tensor_def list_all_length)
    have "vec_list (inds d ! k) = take (hi - lo) (drop lo (vec_list (inds t ! k)))"
      using arg_cong[OF mp, of "\<lambda>xs. xs ! k"] k le by simp
    moreover have li: "lo + i < nnz t" using i b by simp
    moreover have "length (vec_list (inds t ! k)) = nnz t"
      using wt k le by (simp add: wf_tensor_def list_all_length vec_list_def)
    ultimately have "vec_list (inds d ! k) ! i = vec_list (inds t ! k) ! (lo + i)"
      using i by simp
    then have "data (inds d ! k) ! i = data (inds t ! k) ! (lo + i)"
      using i li ld lt by (simp add: vec_list_nth)
    then show "map (\<lambda>v. data v ! i) (inds d) ! k = map (\<lambda>v. data v ! (lo + i)) (inds t) ! k"
      using k le by simp
  qed
  have "take (hi - lo) (drop lo (tensor_rows t))
          = map (\<lambda>i. map (\<lambda>v. data v ! i) (inds t)) (take (hi - lo) (drop lo [0..<nnz t]))"
    by (simp add: tensor_rows_def take_map drop_map)
  also have "take (hi - lo) (drop lo [0..<nnz t]) = [lo..<hi]"
    using b by simp
  also have "[lo..<hi] = map (\<lambda>i. lo + i) [0..<hi - lo]"
    using b map_add_upt[of lo "hi - lo"] by (simp add: add.commute)
  finally have "take (hi - lo) (drop lo (tensor_rows t))
          = map (\<lambda>i. map (\<lambda>v. data v ! (lo + i)) (inds t)) [0..<hi - lo]"
    by (simp add: comp_def)
  moreover have "tensor_rows d = map (\<lambda>i. map (\<lambda>v. data v ! (lo + i)) (inds t)) [0..<hi - lo]"
    unfolding tensor_rows_def n using row by (simp cong: map_cong)
  ultimately show ?thesis by simp
qed

lemma lex_sorted_slice:
  assumes "wf_tensor t" and "wf_tensor d" and "is_slice t lo hi d"
    and "lo \<le> hi" "hi \<le> nnz t" and "lex_sorted t"
  shows "lex_sorted d"
  using assms(6) tensor_rows_slice[OF assms(1-5)]
  by (simp add: lex_sorted_def sorted_wrt_take sorted_wrt_drop)

text \<open>
  C7. A chunk that produce returns from a reachable status, for its range
  \<open>[cut_low, cut_high)\<close> of source positions: the range lies within \<open>[0, nnz)\<close>, the chunk
  has the mode count and the dimension sizes of the source, \<open>cut_high - cut_low\<close>
  nonzeros, each index vector and the value vector hold the source's elements at the
  positions of the range in the same order, and, the source being lexicographically
  sorted, so is the chunk.
\<close>

theorem chunk_is_slice:
  assumes "tensors m0 a = Some t" and "wf_tensor t" and "lex_sorted t"
    and "length cuts = nmodes t" and "list_all (\<lambda>c. 0 < c) cuts"
    and "reachable alloc sk m0 a cuts m status"
    and "spt_SplitSparseTensor alloc sk m status = (m', Inr c)"
  shows "cut_low c < cut_high c \<and> cut_high c \<le> nnz t \<and>
         nmodes (dest c) = nmodes t \<and> ndims (dest c) = ndims t \<and>
         nnz (dest c) = cut_high c - cut_low c \<and>
         map vec_list (inds (dest c))
           = map (\<lambda>v. take (cut_high c - cut_low c) (drop (cut_low c) (vec_list v))) (inds t) \<and>
         vec_list (vals (dest c))
           = take (cut_high c - cut_low c) (drop (cut_low c) (vec_list (vals t))) \<and>
         lex_sorted (dest c)"
proof -
  from reachable_engine_inv[OF assms(1,2,4,5,6)] obtain st where
    e: "engine_inv a t m status st" by auto
  then have s: "statuses m status = Some st" by (simp add: engine_inv_def)
  have f: "no_more st = 0"
  proof (rule ccontr)
    assume "no_more st \<noteq> 0"
    from split_flagged[OF s this, of alloc sk] assms(7) show False by simp
  qed
  from split_spec[OF e assms(2) f, of alloc sk] assms(7)
  have p: "cut_low c < cut_high c" "cut_high c \<le> nnz t"
    "is_slice t (cut_low c) (cut_high c) (dest c)" "wf_tensor (dest c)"
    by auto
  from p(1) have "cut_low c \<le> cut_high c" by simp
  from lex_sorted_slice[OF assms(2) p(4) p(3) this p(2) assms(3)]
  have "lex_sorted (dest c)" .
  with p show ?thesis by (simp add: is_slice_def)
qed

theorem chunk_is_slice_witness:
  "\<exists>m status m' c.
     spt_StartSplitSparseTensor (\<lambda>_. True)
        (one_tensor (scenario_a [3, 2] [1, 2, 3, 4, 5, 6::int])) 0 [3, 1] = Inr (m, status) \<and>
     spt_SplitSparseTensor (\<lambda>_. True) 1 m status = (m', Inr c) \<and>
     nmodes (dest c) = 2 \<and> ndims (dest c) = [3, 2] \<and>
     nnz (dest c) = cut_high c - cut_low c \<and>
     vec_list (vals (dest c))
       = take (cut_high c - cut_low c) (drop (cut_low c) [1, 2, 3, 4, 5, 6]) \<and>
     lex_sorted (dest c)"
proof -
  have t: "tensors (one_tensor (scenario_a [3, 2] [1, 2, 3, 4, 5, 6::int])) 0
          = Some (scenario_a [3, 2] [1, 2, 3, 4, 5, 6::int])"
    by (simp add: one_tensor_def)
  have wf: "wf_tensor (scenario_a [3, 2] [1, 2, 3, 4, 5, 6::int])"
    by (simp add: wf_tensor_def scenario_a_def)
  have ls: "lex_sorted (scenario_a [3, 2] [1, 2, 3, 4, 5, 6::int])"
    by code_simp
  have n: "nnz (scenario_a [3, 2] [1, 2, 3, 4, 5, 6::int]) \<noteq> 0"
    "sortkey (scenario_a [3, 2] [1, 2, 3, 4, 5, 6::int])
       = size_sub (nmodes (scenario_a [3, 2] [1, 2, 3, 4, 5, 6::int])) 1"
    by (simp_all add: scenario_a_def size_sub_def)
  have l: "length [3, 1::nat] = nmodes (scenario_a [3, 2] [1, 2, 3, 4, 5, 6::int])"
    "nmodes (scenario_a [3, 2] [1, 2, 3, 4, 5, 6::int]) \<le> length [3, 1::nat]"
    by (simp_all add: scenario_a_def)
  have p: "list_all (\<lambda>c. 0 < c) [3, 1::nat]" and g: "granted (\<lambda>_. True)"
    by (simp_all add: granted_def)
  from start_success[OF t n l(2) g] obtain m status where
    s: "spt_StartSplitSparseTensor (\<lambda>_. True)
          (one_tensor (scenario_a [3, 2] [1, 2, 3, 4, 5, 6::int])) 0 [3, 1] = Inr (m, status)"
    by auto
  have r: "reachable (\<lambda>_. True) 1 (one_tensor (scenario_a [3, 2] [1, 2, 3, 4, 5, 6::int])) 0
             [3, 1] m status"
    using s by (rule reachable.started)
  from start_engine_inv[OF t l(1) p s] obtain st where
    e: "engine_inv 0 (scenario_a [3, 2] [1, 2, 3, 4, 5, 6::int]) m status st"
    and f: "no_more st = 0"
    by auto
  from split_granted[OF e wf f g, of 1] obtain m' c where
    sp: "spt_SplitSparseTensor (\<lambda>_. True) 1 m status = (m', Inr c)"
    by blast
  from chunk_is_slice[OF t wf ls l(1) p r sp] s sp show ?thesis
    by (auto simp: scenario_a_def vec_list_def)
qed

section \<open>What the two scans count\<close>

lemma count_indices_changes:
  "i \<le> high \<Longrightarrow> high \<le> length idx \<Longrightarrow>
   count_indices idx i high l c + 1
     = c + length (remdups_adj (l # take (high - i) (drop i idx)))"
proof (induction idx i high l c rule: count_indices.induct)
  case (1 idx i high l c)
  show ?case
  proof (cases "i < high")
    case False
    with "1.prems" have "i = high" by simp
    then show ?thesis by (simp add: count_indices.simps[of idx high])
  next
    case True
    with "1.prems" have sl: "take (high - i) (drop i idx)
        = idx ! i # take (high - (i + 1)) (drop (i + 1) idx)"
      by (simp add: Cons_nth_drop_Suc[symmetric] take_Suc_Cons[symmetric] Suc_diff_Suc
               del: take_Suc_Cons)
    from True "1.prems" have b: "i + 1 \<le> high" by simp
    show ?thesis
    proof (cases "idx ! i \<noteq> l")
      case c: True
      with True "1.IH"(1)[OF True c b "1.prems"(2)] show ?thesis
        by (simp add: count_indices.simps[of idx i] sl)
    next
      case c: False
      with True "1.IH"(2)[OF True c b "1.prems"(2)] show ?thesis
        by (simp add: count_indices.simps[of idx i] sl)
    qed
  qed
qed

lemma count_indices_runs:
  assumes "low < high" and "high \<le> length idx"
  shows "count_indices idx low high (idx ! low) 1 = runs_count idx low high"
proof -
  from assms have sl: "take (high - low) (drop low idx)
        = idx ! low # take (high - (low + 1)) (drop (low + 1) idx)"
    by (simp add: Cons_nth_drop_Suc[symmetric] take_Suc_Cons[symmetric] Suc_diff_Suc
             del: take_Suc_Cons)
  from count_indices_changes[of low high idx "idx ! low" 1] assms
  show ?thesis by (simp add: runs_count_def sl)
qed

lemma sorted_remdups_adj_distinct: "sorted (xs::nat list) \<Longrightarrow> distinct (remdups_adj xs)"
  by (induction xs rule: remdups_adj.induct) auto

lemma runs_count_sorted:
  assumes "sorted (take (high - low) (drop low idx))"
  shows "runs_count idx low high = distinct_count idx low high"
proof -
  let ?xs = "take (high - low) (drop low idx)"
  have "length (remdups_adj ?xs) = card (set (remdups_adj ?xs))"
    using distinct_card[OF sorted_remdups_adj_distinct[OF assms]] by simp
  also have "\<dots> = length (remdups ?xs)"
    by (simp add: length_remdups_card_conv)
  finally show ?thesis by (simp add: runs_count_def distinct_count_def)
qed

text \<open>
  The step a pass of the descend loop pushes, on a status that satisfies the invariant:
  with \<open>[low, high)\<close> the range of the current level and \<open>idx\<close> the index vector of the
  mode, it is \<open>(runs - 1) div cuts_by_mode[mode] + 1\<close> for the number of runs of \<open>idx\<close>
  in the range. Where \<open>idx\<close> is sorted within the range, the runs are the distinct
  values.
\<close>

theorem descend_step_counts_runs:
  assumes "status_inv t st" and "wf_tensor t"
    and "len (partial_low st) = mode + 1" and "mode < nmodes t"
    and "low = last (vec_list (partial_low st))"
    and "high = last (vec_list (partial_high st))"
    and "idx = data (inds t ! mode)"
  shows "\<exists>st'. descend_body alloc t st mode = (st', None) \<and>
           vec_list (index_step st') = vec_list (index_step st) @
             [(runs_count idx low high - 1) div vec_list (cuts_by_mode st) ! mode + 1] \<and>
           (sorted (take (high - low) (drop low idx)) \<longrightarrow>
              vec_list (index_step st') = vec_list (index_step st) @
                [(distinct_count idx low high - 1) div vec_list (cuts_by_mode st) ! mode + 1])"
proof -
  note ln = status_inv_lengths[OF assms(1)]
  from assms(1) have rg: "list_all2 (<) (vec_list (partial_low st)) (vec_list (partial_high st))"
    by (simp add: status_inv_def)
  have ne: "vec_list (partial_low st) \<noteq> []" "vec_list (partial_high st) \<noteq> []"
    using ln assms(3) by auto
  have ll: "length (vec_list (partial_low st)) = mode + 1"
    "length (vec_list (partial_high st)) = mode + 1" "len (partial_high st) = mode + 1"
    using ln assms(3) by simp_all
  have lw: "low = vec_list (partial_low st) ! mode" "high = vec_list (partial_high st) ! mode"
    using ne ll by (simp_all add: assms(5,6) last_conv_nth)
  have lt: "low < high"
    using list_all2_nthD[OF rg, of mode] ll lw by simp
  have "high \<le> nnz t"
    using status_inv_high_le[OF assms(1), of mode] ll lw by simp
  moreover have "nnz t \<le> length idx"
    using assms(2,4,7) by (simp add: wf_tensor_def list_all_length)
  ultimately have hl: "high \<le> length idx" by simp
  have cnt: "count_indices idx low high (idx ! low) 1 = runs_count idx low high"
    using count_indices_runs[OF lt hl] .
  have pos: "1 \<le> runs_count idx low high"
    using count_indices_ge[of 1 idx low high "idx ! low"] cnt by simp
  from descend_body_inv[OF assms(1,3,4), of alloc] obtain st' where
    r: "descend_body alloc t st mode = (st', None)"
    and s: "vec_list (index_step st') = vec_list (index_step st) @
             [size_sub (count_indices idx low high (idx ! low) 1) 1
              div vec_list (cuts_by_mode st) ! mode + 1]"
    unfolding assms(5,6,7) by blast
  have "size_sub (count_indices idx low high (idx ! low) 1) 1 = runs_count idx low high - 1"
    using cnt pos by (simp add: size_sub_def)
  with r s runs_count_sorted[of high low idx] show ?thesis by auto
qed

theorem descend_step_counts_runs_witness:
  "\<exists>m status st st'.
     spt_StartSplitSparseTensor (\<lambda>_. True)
        (one_tensor (scenario_a [3, 2] [1, 2, 3, 4, 5, 6::int])) 0 [3, 1] = Inr (m, status) \<and>
     statuses m status = Some st \<and>
     descend_body (\<lambda>_. True) (scenario_a [3, 2] [1, 2, 3, 4, 5, 6::int]) st 0 = (st', None) \<and>
     vec_list (index_step st') = [1]"
proof -
  have t: "tensors (one_tensor (scenario_a [3, 2] [1, 2, 3, 4, 5, 6::int])) 0
          = Some (scenario_a [3, 2] [1, 2, 3, 4, 5, 6::int])"
    by (simp add: one_tensor_def)
  have wf: "wf_tensor (scenario_a [3, 2] [1, 2, 3, 4, 5, 6::int])"
    by (simp add: wf_tensor_def scenario_a_def)
  have n: "nnz (scenario_a [3, 2] [1, 2, 3, 4, 5, 6::int]) \<noteq> 0"
    "sortkey (scenario_a [3, 2] [1, 2, 3, 4, 5, 6::int])
       = size_sub (nmodes (scenario_a [3, 2] [1, 2, 3, 4, 5, 6::int])) 1"
    by (simp_all add: scenario_a_def size_sub_def)
  have l: "length [3, 1::nat] = nmodes (scenario_a [3, 2] [1, 2, 3, 4, 5, 6::int])"
    "nmodes (scenario_a [3, 2] [1, 2, 3, 4, 5, 6::int]) \<le> length [3, 1::nat]"
    "0 < nmodes (scenario_a [3, 2] [1, 2, 3, 4, 5, 6::int])"
    by (simp_all add: scenario_a_def)
  have p: "list_all (\<lambda>c. 0 < c) [3, 1::nat]" and g: "granted (\<lambda>_. True)"
    by (simp_all add: granted_def)
  from start_success[OF t n l(2) g] obtain m status st where
    s: "spt_StartSplitSparseTensor (\<lambda>_. True)
          (one_tensor (scenario_a [3, 2] [1, 2, 3, 4, 5, 6::int])) 0 [3, 1] = Inr (m, status)"
    and st: "statuses m status = Some st" "vec_list (partial_low st) = [0]"
      "vec_list (partial_high st) = [nnz (scenario_a [3, 2] [1, 2, 3, 4, 5, 6::int])]"
      "vec_list (index_step st) = []"
      "vec_list (cuts_by_mode st)
         = take (nmodes (scenario_a [3, 2] [1, 2, 3, 4, 5, 6::int])) [3, 1]"
      "vec_inv (partial_low st)"
    by auto
  from start_engine_inv[OF t l(1) p s] st(1) have inv:
    "status_inv (scenario_a [3, 2] [1, 2, 3, 4, 5, 6::int]) st"
    by (auto simp: engine_inv_def)
  have len1: "len (partial_low st) = 0 + 1"
    using st(2,6) vec_list_length[of "partial_low st"] by simp
  have rc: "runs_count [0, 0, 1, 1, 2, 2] 0 6 = 3"
    by code_simp
  from descend_step_counts_runs[OF inv wf len1 l(3) refl refl refl, of "\<lambda>_. True"]
  obtain st' where
    "descend_body (\<lambda>_. True) (scenario_a [3, 2] [1, 2, 3, 4, 5, 6::int]) st 0 = (st', None)"
    "vec_list (index_step st') = vec_list (index_step st) @
       [(runs_count (data (inds (scenario_a [3, 2] [1, 2, 3, 4, 5, 6::int]) ! 0))
            (last (vec_list (partial_low st))) (last (vec_list (partial_high st))) - 1)
          div vec_list (cuts_by_mode st) ! 0 + 1]"
    by blast
  with s st rc show ?thesis
    by (auto simp: scenario_a_def)
qed

section \<open>The vector operations and the invariant\<close>

text \<open>
  Create, append, resize and copy either fail with \<^verbatim>\<open>SPTERR_OS_ERROR\<close> or return a
  vector that satisfies the invariant, with the expected elements; the three that take
  a vector need the invariant of that vector.
\<close>

theorem vector_ops_keep_invariant:
  assumes "vec_inv v"
  shows "(case sptNewVector alloc l c of
            Inl e \<Rightarrow> e = SPTERR_OS_ERROR
          | Inr w \<Rightarrow> vec_inv (w::('a::zero) sptVector) \<and> len w = l \<and> c \<le> cap w) \<and>
         (case sptAppendVector alloc v x of
            Inl e \<Rightarrow> e = SPTERR_OS_ERROR
          | Inr w \<Rightarrow> vec_inv w \<and> vec_list w = vec_list v @ [x::'a]) \<and>
         (case sptResizeVector alloc v n of
            Inl e \<Rightarrow> e = SPTERR_OS_ERROR
          | Inr w \<Rightarrow> vec_inv w \<and> len w = n \<and>
                     take (min n (len v)) (data w) = take (min n (len v)) (data v)) \<and>
         (case sptCopyVector alloc v of
            Inl e \<Rightarrow> e = SPTERR_OS_ERROR
          | Inr w \<Rightarrow> vec_inv w \<and> vec_list w = vec_list v)"
proof (intro conjI)
  show "case sptNewVector alloc l c of
            Inl e \<Rightarrow> e = SPTERR_OS_ERROR
          | Inr w \<Rightarrow> vec_inv (w::'a sptVector) \<and> len w = l \<and> c \<le> cap w"
    by (auto simp: sptNewVector_def malloc_cells_def vec_inv_def Let_def)
  show "case sptAppendVector alloc v x of
            Inl e \<Rightarrow> e = SPTERR_OS_ERROR
          | Inr w \<Rightarrow> vec_inv w \<and> vec_list w = vec_list v @ [x]"
    using assms
    by (auto simp: sptAppendVector_def realloc_cells_def vec_store_def vec_inv_def vec_list_def
          Let_def take_Suc_conv_app_nth nth_append)
  show "case sptResizeVector alloc v n of
            Inl e \<Rightarrow> e = SPTERR_OS_ERROR
          | Inr w \<Rightarrow> vec_inv w \<and> len w = n \<and>
                     take (min n (len v)) (data w) = take (min n (len v)) (data v)"
    using assms
    by (auto simp: sptResizeVector_def realloc_cells_def vec_inv_def Let_def min_def)
  show "case sptCopyVector alloc v of
            Inl e \<Rightarrow> e = SPTERR_OS_ERROR
          | Inr w \<Rightarrow> vec_inv w \<and> vec_list w = vec_list v"
    using assms
    by (auto simp: sptCopyVector_def sptNewVector_def malloc_cells_def memcpy_cells_def
          vec_inv_def vec_list_def Let_def)
qed

theorem vector_ops_keep_invariant_witness:
  "sptAppendVector (\<lambda>_. True) \<lparr>len = 2, cap = 2, data = [7, 8::int]\<rparr> 9
     = Inr \<lparr>len = 3, cap = 3, data = [7, 8, 9]\<rparr> \<and>
   vec_inv \<lparr>len = 3, cap = 3, data = [7, 8, 9::int]\<rparr>"
proof -
  have v: "vec_inv \<lparr>len = 2, cap = 2, data = [7, 8::int]\<rparr>"
    by (simp add: vec_inv_def)
  have e: "sptAppendVector (\<lambda>_. True) \<lparr>len = 2, cap = 2, data = [7, 8::int]\<rparr> 9
     = Inr \<lparr>len = 3, cap = 3, data = [7, 8, 9]\<rparr>"
    by code_simp
  from vector_ops_keep_invariant[OF v, where alloc = "\<lambda>_. True" and x = 9 and l = 0
      and c = 0 and n = 0] e
  show ?thesis by simp
qed

end
